theory Spec2Isabelle
  imports Complex_Main
begin

section \<open>JavaScript values\<close>

text \<open>
  The aggregator of \<^verbatim>\<open>index.js\<close> handles what \<^verbatim>\<open>res.json()\<close> and the RSS parser hand
  it: untyped JavaScript values. They are modelled as they are at run time.

  \<^item> A string is a list of code units; only the code units below 256 are represented.
  \<^item> A number is a rational. Every finite double is one; on the paths of this program
    the two infinities behave as a number past the range of \<^verbatim>\<open>Date\<close>, \<^verbatim>\<open>-0\<close> as \<^verbatim>\<open>0\<close>,
    and \<^verbatim>\<open>NaN\<close> reaches none of these functions (JSON has no literal for it).
  \<^item> An object is the list of its own properties; the first binding of a key counts.
\<close>

datatype jsval =
    Undefined
  | Null
  | Bool bool
  | Num rat
  | Str string
  | Arr "jsval list"
  | Obj "(string \<times> jsval) list"

type_synonym obj = "(string \<times> jsval) list"

text \<open>The only exception the modelled code can raise by itself is a \<^verbatim>\<open>TypeError\<close>
  (a method called on a value that does not have it, a property read on \<^verbatim>\<open>null\<close>).\<close>

datatype error = TypeError

text \<open>\<^verbatim>\<open>ToBoolean\<close>: what \<^verbatim>\<open>if (v)\<close>, \<^verbatim>\<open>v && w\<close>, \<^verbatim>\<open>v || w\<close> and \<^verbatim>\<open>v ? a : b\<close> test.\<close>

fun truthy :: "jsval \<Rightarrow> bool" where
  "truthy Undefined = False"
| "truthy Null = False"
| "truthy (Bool b) = b"
| "truthy (Num q) = (q \<noteq> 0)"
| "truthy (Str s) = (s \<noteq> [])"
| "truthy (Arr xs) = True"
| "truthy (Obj ps) = True"

text \<open>\<^verbatim>\<open>a || b\<close> and \<^verbatim>\<open>a && b\<close>. The right operands in the source are property reads
  and literals, which have no effect, so evaluating them eagerly changes nothing.\<close>

definition js_or :: "jsval \<Rightarrow> jsval \<Rightarrow> jsval" where
  "js_or a b = (if truthy a then a else b)"

definition js_and :: "jsval \<Rightarrow> jsval \<Rightarrow> jsval" where
  "js_and a b = (if truthy a then b else a)"

text \<open>Own property of an object, \<^verbatim>\<open>undefined\<close> when absent. None of the names the
  source reads is a property of \<^verbatim>\<open>Object.prototype\<close>.\<close>

fun field :: "obj \<Rightarrow> string \<Rightarrow> jsval" where
  "field [] k = Undefined"
| "field ((k', v) # ps) k = (if k' = k then v else field ps k)"

text \<open>
  \<^verbatim>\<open>v.name\<close> for a named property on a value that is neither \<^verbatim>\<open>null\<close> nor
  \<^verbatim>\<open>undefined\<close>: every call below is guarded by a truthiness test of the receiver, as in
  the source (on \<^verbatim>\<open>null\<close> and \<^verbatim>\<open>undefined\<close> the read would raise; see \<open>mapItem\<close> for the
  one unguarded receiver). Primitives and arrays own \<^verbatim>\<open>length\<close> only among the names read.
\<close>

fun getv :: "jsval \<Rightarrow> string \<Rightarrow> jsval" where
  "getv (Obj ps) k = field ps k"
| "getv (Str s) k = (if k = ''length'' then Num (of_nat (length s)) else Undefined)"
| "getv (Arr xs) k = (if k = ''length'' then Num (of_nat (length xs)) else Undefined)"
| "getv v k = Undefined"

text \<open>\<^verbatim>\<open>v[0]\<close> on a value that is neither \<^verbatim>\<open>null\<close> nor \<^verbatim>\<open>undefined\<close>.\<close>

fun index0 :: "jsval \<Rightarrow> jsval" where
  "index0 (Arr []) = Undefined"
| "index0 (Arr (x # xs)) = x"
| "index0 (Str []) = Undefined"
| "index0 (Str (c # cs)) = Str [c]"
| "index0 (Obj ps) = field ps ''0''"
| "index0 v = Undefined"

fun isArray :: "jsval \<Rightarrow> bool" where
  "isArray (Arr xs) = True"
| "isArray v = False"

section \<open>Strings and the three regular expressions\<close>

definition dquote :: char where
  "dquote = CHR 0x22"

definition squote :: char where
  "squote = CHR 0x27"

definition is_quote :: "char \<Rightarrow> bool" where
  "is_quote c = (c = dquote \<or> c = squote)"

text \<open>White space and line terminators among the code units below 256: what
  \<^verbatim>\<open>String.prototype.trim\<close> strips and \<^verbatim>\<open>\s\<close> matches.\<close>

definition is_space :: "char \<Rightarrow> bool" where
  "is_space c = (c \<in> set [CHR 0x09, CHR 0x0A, CHR 0x0B, CHR 0x0C, CHR 0x0D, CHR 0x20, CHR 0xA0])"

definition trim :: "string \<Rightarrow> string" where
  "trim s = rev (dropWhile is_space (rev (dropWhile is_space s)))"

text \<open>\<^verbatim>\<open>s.startsWith(p)\<close> and \<^verbatim>\<open>s.includes(p)\<close> on strings.\<close>

fun startsWith :: "string \<Rightarrow> string \<Rightarrow> bool" where
  "startsWith s [] = True"
| "startsWith [] (p # ps) = False"
| "startsWith (c # cs) (p # ps) = (c = p \<and> startsWith cs ps)"

fun str_includes :: "string \<Rightarrow> string \<Rightarrow> bool" where
  "str_includes [] p = (p = [])"
| "str_includes (c # cs) p = (startsWith (c # cs) p \<or> str_includes cs p)"

text \<open>The \<^verbatim>\<open>i\<close> flag: two code units match when their canonical (upper case) forms
  are equal. A code unit from 128 on never canonicalises to an ASCII one, so against the
  ASCII patterns of the source only the ASCII letters fold.\<close>

definition upcase :: "char \<Rightarrow> char" where
  "upcase c =
     (case map_of (zip ''abcdefghijklmnopqrstuvwxyz'' ''ABCDEFGHIJKLMNOPQRSTUVWXYZ'') c of
        Some u \<Rightarrow> u
      | None \<Rightarrow> c)"

fun ci_prefix :: "string \<Rightarrow> string \<Rightarrow> bool" where
  "ci_prefix [] s = True"
| "ci_prefix (p # ps) [] = False"
| "ci_prefix (p # ps) (c # cs) = (upcase p = upcase c \<and> ci_prefix ps cs)"

text \<open>
  \<^verbatim>\<open>/<img[^>]+src=["']([^"']+)["']/i\<close>, the capture group of the leftmost match.

  \<open>src_attr\<close> is the tail \<^verbatim>\<open>src=["']([^"']+)["']\<close> at a fixed position: the greedy class
  takes the whole run up to the next quote, and a shorter run is followed by no quote.
  \<open>img_back\<close> is the backtracking of the class before it: the longest run of code units
  other than the closing angle bracket first, then one code unit less at a time, down to
  one.
\<close>

definition src_attr :: "string \<Rightarrow> string option" where
  "src_attr t =
     (if ci_prefix ''src='' t then
        (case drop 4 t of
           [] \<Rightarrow> None
         | q # u \<Rightarrow>
             (if is_quote q then
                (let cap = takeWhile (\<lambda>c. \<not> is_quote c) u in
                 if cap \<noteq> [] \<and> length cap < length u then Some cap else None)
              else None))
      else None)"

fun img_back :: "string \<Rightarrow> nat \<Rightarrow> string option" where
  "img_back r 0 = None"
| "img_back r (Suc k) =
     (case src_attr (drop (Suc k) r) of
        Some cap \<Rightarrow> Some cap
      | None \<Rightarrow> img_back r k)"

definition img_at :: "string \<Rightarrow> string option" where
  "img_at s =
     (if ci_prefix ''<img'' s then
        (let r = drop 4 s in img_back r (length (takeWhile (\<lambda>c. c \<noteq> CHR ''>'') r)))
      else None)"

fun match_img :: "string \<Rightarrow> string option" where
  "match_img [] = None"
| "match_img (c # cs) =
     (case img_at (c # cs) of
        Some cap \<Rightarrow> Some cap
      | None \<Rightarrow> match_img cs)"

text \<open>
  \<^verbatim>\<open>/(https?:\/\/[^\s"']+\.(mp4|webm))/i\<close>, groups 1 and 2 of the leftmost match.
  \<open>scheme_len\<close> is the length of \<^verbatim>\<open>https?:\/\/\<close> at the start of the text, \<open>ext_at\<close>
  the tail \<^verbatim>\<open>\.(mp4|webm)\<close> at a fixed position (the extension as the text spells it),
  \<open>video_back\<close> the backtracking of the greedy class.
\<close>

definition scheme_len :: "string \<Rightarrow> nat option" where
  "scheme_len s =
     (if ci_prefix ''https://'' s then Some 8
      else if ci_prefix ''http://'' s then Some 7
      else None)"

definition ext_at :: "string \<Rightarrow> string option" where
  "ext_at t =
     (case t of
        [] \<Rightarrow> None
      | d # u \<Rightarrow>
          (if d = CHR ''.'' then
             (if ci_prefix ''mp4'' u then Some (take 3 u)
              else if ci_prefix ''webm'' u then Some (take 4 u)
              else None)
           else None))"

fun video_back :: "string \<Rightarrow> string \<Rightarrow> nat \<Rightarrow> (string \<times> string) option" where
  "video_back pre r 0 = None"
| "video_back pre r (Suc k) =
     (case ext_at (drop (Suc k) r) of
        Some ext \<Rightarrow> Some (pre @ take (Suc k) r @ CHR ''.'' # ext, ext)
      | None \<Rightarrow> video_back pre r k)"

definition video_at :: "string \<Rightarrow> (string \<times> string) option" where
  "video_at s =
     (case scheme_len s of
        None \<Rightarrow> None
      | Some n \<Rightarrow>
          (let r = drop n s in
           video_back (take n s) r
             (length (takeWhile (\<lambda>c. \<not> is_space c \<and> \<not> is_quote c) r))))"

fun match_video :: "string \<Rightarrow> (string \<times> string) option" where
  "match_video [] = None"
| "match_video (c # cs) =
     (case video_at (c # cs) of
        Some m \<Rightarrow> Some m
      | None \<Rightarrow> match_video cs)"

text \<open>\<^verbatim>\<open>/<[^>]+>/g\<close> replaced by the empty string: every tag, left to right. The greedy
  class takes the whole run up to the next closing bracket, which must be there and must
  not follow the opening one at once.\<close>

function strip_tags :: "string \<Rightarrow> string" where
  "strip_tags [] = []"
| "strip_tags (c # cs) =
     (let run = takeWhile (\<lambda>d. d \<noteq> CHR ''>'') cs in
      if c = CHR ''<'' \<and> run \<noteq> [] \<and> length run < length cs
      then strip_tags (drop (Suc (length run)) cs)
      else c # strip_tags cs)"
  by pat_completeness auto
termination
  by (relation "measure length") auto

section \<open>Method calls on untyped values\<close>

text \<open>
  A method call on a value that is not a string raises a \<^verbatim>\<open>TypeError\<close>: numbers,
  booleans and the objects of JSON have none of these methods, and a JSON object's own
  property of that name is never a function. Arrays have \<^verbatim>\<open>includes\<close> (element equality)
  but none of the others.
\<close>

definition call_startsWith :: "jsval \<Rightarrow> string \<Rightarrow> error + bool" where
  "call_startsWith v p = (case v of Str s \<Rightarrow> Inr (startsWith s p) | _ \<Rightarrow> Inl TypeError)"

definition call_includes :: "jsval \<Rightarrow> string \<Rightarrow> error + bool" where
  "call_includes v p =
     (case v of
        Str s \<Rightarrow> Inr (str_includes s p)
      | Arr xs \<Rightarrow> Inr (Str p \<in> set xs)
      | _ \<Rightarrow> Inl TypeError)"

definition call_trim :: "jsval \<Rightarrow> error + string" where
  "call_trim v = (case v of Str s \<Rightarrow> Inr (trim s) | _ \<Rightarrow> Inl TypeError)"

definition call_match_img :: "jsval \<Rightarrow> error + string option" where
  "call_match_img v = (case v of Str s \<Rightarrow> Inr (match_img s) | _ \<Rightarrow> Inl TypeError)"

definition call_match_video :: "jsval \<Rightarrow> error + (string \<times> string) option" where
  "call_match_video v = (case v of Str s \<Rightarrow> Inr (match_video s) | _ \<Rightarrow> Inl TypeError)"

text \<open>\<^verbatim>\<open>xs.map(f)\<close> with a callback that can raise: the first exception ends the map.\<close>

fun map_items :: "('a \<Rightarrow> error + 'b) \<Rightarrow> 'a list \<Rightarrow> error + 'b list" where
  "map_items f [] = Inr []"
| "map_items f (x # xs) =
     (case f x of
        Inl e \<Rightarrow> Inl e
      | Inr y \<Rightarrow> (case map_items f xs of Inl e \<Rightarrow> Inl e | Inr ys \<Rightarrow> Inr (y # ys)))"

section \<open>The world outside the program\<close>

text \<open>
  What the program reads from its environment and from the engine, as parameters:
  the clock (\<^verbatim>\<open>Date.now()\<close> and \<^verbatim>\<open>new Date()\<close>, one instant for a whole refresh), the
  engine's date parser (\<^verbatim>\<open>new Date(string)\<close>, \<open>None\<close> for an invalid date),
  \<^verbatim>\<open>toISOString\<close>, \<^verbatim>\<open>JSON.stringify\<close>, the engine's conversion to a string of a value that
  is an array or an object (it can raise), the network as \<^verbatim>\<open>fetch\<close> sees it and the RSS
  parser's \<^verbatim>\<open>parseURL\<close> (\<open>None\<close> when they raise).
\<close>

record response =
  content_type :: "string option"
  json :: "jsval option"

record env =
  now :: int
  parse_date :: "string \<Rightarrow> int option"
  toISOString :: "int \<Rightarrow> string"
  stringify :: "jsval \<Rightarrow> string"
  to_string :: "jsval \<Rightarrow> error + string"
  fetch :: "string \<Rightarrow> response option"
  parseURL :: "string \<Rightarrow> obj list option"

text \<open>\<^verbatim>\<open>new Date(v)\<close>. The time value of a \<^verbatim>\<open>Date\<close> is an integer number of milliseconds
  within 8.64e15 of the epoch, or \<^verbatim>\<open>NaN\<close> (an invalid date): \<open>None\<close>.\<close>

definition time_clip :: "rat \<Rightarrow> int option" where
  "time_clip q =
     (if \<bar>q\<bar> \<le> 8640000000000000 then Some (if 0 \<le> q then \<lfloor>q\<rfloor> else \<lceil>q\<rceil>) else None)"

definition new_date :: "env \<Rightarrow> jsval \<Rightarrow> error + int option" where
  "new_date env v =
     (case v of
        Str s \<Rightarrow> Inr (parse_date env s)
      | Num q \<Rightarrow> Inr (time_clip q)
      | Bool b \<Rightarrow> Inr (Some (if b then 1 else 0))
      | Null \<Rightarrow> Inr (Some 0)
      | Undefined \<Rightarrow> Inr None
      | _ \<Rightarrow> (case to_string env v of Inl e \<Rightarrow> Inl e | Inr s \<Rightarrow> Inr (parse_date env s)))"

section \<open>Source adapter: \<^verbatim>\<open>tryParseJSONFeed\<close>\<close>

text \<open>The callback of \<^verbatim>\<open>data.items.map\<close>. Its first property read raises when the
  element is \<^verbatim>\<open>null\<close>; on every other value of JSON the reads return.\<close>

definition mapItem :: "env \<Rightarrow> string \<Rightarrow> jsval \<Rightarrow> error + obj" where
  "mapItem env url it =
     (if it = Null \<or> it = Undefined then Inl TypeError
      else
        (let att = getv it ''attachments'';
             att0 = index0 att;
             au = getv it ''author''
         in Inr
           [(''title'', js_or (getv it ''title'') (Str ''(untitled)'')),
            (''link'', js_or (js_or (getv it ''url'') (getv it ''external_url'')) (Str [])),
            (''isoDate'',
               js_or (js_or (getv it ''date_published'') (getv it ''date_modified''))
                 (Str (toISOString env (now env)))),
            (''content'', js_or (js_or (getv it ''content_html'') (getv it ''content_text'')) (Str [])),
            (''contentSnippet'', js_or (getv it ''summary'') (Str [])),
            (''enclosure'',
               (if truthy (js_and att att0)
                then Obj [(''url'', getv att0 ''url''),
                          (''type'', js_or (getv att0 ''mime_type'') (Str []))]
                else Undefined)),
            (''image'', js_or (js_or (getv it ''image'') (getv it ''banner_image'')) Null),
            (''author'',
               (if truthy (js_and au (js_or (getv au ''name'') (getv au ''url'')))
                then Arr [Obj [(''name'', getv au ''name''), (''link'', getv au ''url'')]]
                else Arr [])),
            (''_source'', Str url)]))"

definition is_json_type :: "string \<Rightarrow> bool" where
  "is_json_type ct = (str_includes ct ''application/json'' \<or> str_includes ct ''text/json'')"

record jsonfeed =
  feed_title :: jsval
  feed_items :: "obj list"

definition tryParseJSONFeed :: "env \<Rightarrow> string \<Rightarrow> jsonfeed option" where
  "tryParseJSONFeed env url =
     (case fetch env url of
        None \<Rightarrow> None
      | Some res \<Rightarrow>
          (let ct = (case content_type res of None \<Rightarrow> [] | Some c \<Rightarrow> c) in
           if \<not> is_json_type ct then None
           else
             (case json res of
                None \<Rightarrow> None
              | Some data \<Rightarrow>
                  (if \<not> truthy data then None
                   else
                     (case getv data ''items'' of
                        Arr xs \<Rightarrow>
                          (case map_items (mapItem env url) xs of
                             Inl e \<Rightarrow> None
                           | Inr its \<Rightarrow>
                               Some \<lparr>feed_title = js_or (getv data ''title'') (Str url),
                                     feed_items = its\<rparr>)
                      | _ \<Rightarrow> None)))))"

section \<open>Media extractor\<close>

text \<open>\<^verbatim>\<open>m && m[0] && m[0]["$"] && m[0]["$"].url\<close>\<close>

definition media_url :: "jsval \<Rightarrow> jsval" where
  "media_url m =
     js_and m (js_and (index0 m)
       (js_and (getv (index0 m) ''$'') (getv (getv (index0 m) ''$'') ''url'')))"

text \<open>\<^verbatim>\<open>item.enclosure && item.enclosure.url && (item.enclosure.type || "").startsWith(p)\<close>\<close>

definition enclosure_is :: "obj \<Rightarrow> string \<Rightarrow> error + bool" where
  "enclosure_is item p =
     (let enc = field item ''enclosure'' in
      if truthy enc \<and> truthy (getv enc ''url'')
      then call_startsWith (js_or (getv enc ''type'') (Str [])) p
      else Inr False)"

definition pickImage :: "obj \<Rightarrow> error + jsval" where
  "pickImage item =
     (case enclosure_is item ''image/'' of
        Inl e \<Rightarrow> Inl e
      | Inr True \<Rightarrow> Inr (getv (field item ''enclosure'') ''url'')
      | Inr False \<Rightarrow>
          (let firstMedia =
                 js_or (media_url (field item ''mediaContent''))
                       (media_url (field item ''mediaThumbnail''));
               html =
                 js_or (js_or (js_or (field item ''contentEncoded'') (field item ''content:encoded''))
                          (field item ''content''))
                   (Str [])
           in if truthy firstMedia then Inr firstMedia
              else
                (case call_match_img html of
                   Inl e \<Rightarrow> Inl e
                 | Inr (Some cap) \<Rightarrow> Inr (Str cap)
                 | Inr None \<Rightarrow>
                     (if truthy (field item ''image'') then Inr (field item ''image'')
                      else Inr Null))))"

record media =
  url :: jsval
  mtype :: jsval

definition pickVideo :: "env \<Rightarrow> obj \<Rightarrow> error + media option" where
  "pickVideo env item =
     (case enclosure_is item ''video/'' of
        Inl e \<Rightarrow> Inl e
      | Inr True \<Rightarrow>
          Inr (Some \<lparr>url = getv (field item ''enclosure'') ''url'',
                     mtype = getv (field item ''enclosure'') ''type''\<rparr>)
      | Inr False \<Rightarrow>
          (let mg = field item ''mediaGroup'';
               lnk = field item ''link'';
               html = js_or (js_or (field item ''contentEncoded'') (field item ''content'')) (Str [])
           in
           case (if truthy mg \<and> isArray mg then match_video (stringify env mg) else None) of
             Some (u, ext) \<Rightarrow> Inr (Some \<lparr>url = Str u, mtype = Str (''video/'' @ ext)\<rparr>)
           | None \<Rightarrow>
               (case (if truthy lnk then call_includes lnk ''youtube.com/watch'' else Inr False) of
                  Inl e \<Rightarrow> Inl e
                | Inr True \<Rightarrow> Inr (Some \<lparr>url = lnk, mtype = Str ''text/html''\<rparr>)
                | Inr False \<Rightarrow>
                    (case call_match_video html of
                       Inl e \<Rightarrow> Inl e
                     | Inr (Some (u, ext)) \<Rightarrow>
                         Inr (Some \<lparr>url = Str u, mtype = Str (''video/'' @ ext)\<rparr>)
                     | Inr None \<Rightarrow> Inr None))))"

section \<open>Normalizer and merge engine: \<^verbatim>\<open>refresh\<close>\<close>

record item =
  title :: jsval
  link :: jsval
  date :: "int option"
  description :: jsval
  authorName :: jsval
  imageUrl :: jsval
  video :: "media option"
  enclosure :: jsval
  source :: jsval

record cache =
  items :: "item list"
  lastBuild :: int

text \<open>\<^verbatim>\<open>new Date(it.isoDate || it.pubDate || Date.now())\<close>\<close>

definition item_date :: "env \<Rightarrow> obj \<Rightarrow> error + int option" where
  "item_date env it =
     new_date env
       (js_or (js_or (field it ''isoDate'') (field it ''pubDate'')) (Num (of_int (now env))))"

text \<open>The callback of \<^verbatim>\<open>collected.map\<close>.\<close>

definition normalize :: "env \<Rightarrow> obj \<Rightarrow> error + item" where
  "normalize env it =
     (case item_date env it of
        Inl e \<Rightarrow> Inl e
      | Inr d \<Rightarrow>
          (case pickImage it of
             Inl e \<Rightarrow> Inl e
           | Inr img \<Rightarrow>
               (case pickVideo env it of
                  Inl e \<Rightarrow> Inl e
                | Inr vid \<Rightarrow>
                    Inr \<lparr>title = js_or (field it ''title'') (Str ''(untitled)''),
                         link = js_or (js_or (field it ''link'') (field it ''guid'')) (Str []),
                         date = d,
                         description =
                           js_or (js_or (js_or (field it ''contentEncoded'') (field it ''content''))
                                    (field it ''contentSnippet''))
                             (Str []),
                         authorName =
                           js_or (js_or (field it ''creator'')
                                    (js_and (field it ''author'')
                                       (js_and (index0 (field it ''author''))
                                          (getv (index0 (field it ''author'')) ''name''))))
                             (Str []),
                         imageUrl = img,
                         video = vid,
                         enclosure =
                           (if truthy (js_and (field it ''enclosure'')
                                         (getv (field it ''enclosure'') ''url''))
                            then field it ''enclosure'' else Null),
                         source = field it ''_source''\<rparr>)))"

text \<open>The loop over \<^verbatim>\<open>SOURCES\<close>. \<^verbatim>\<open>it._source = src\<close> puts the binding first, where
  \<open>field\<close> finds it. A source whose JSON attempt gives nothing is read again by the RSS
  parser; when that raises, the exception is caught and logged.\<close>

definition set_source :: "string \<Rightarrow> obj \<Rightarrow> obj" where
  "set_source src it = (''_source'', Str src) # it"

definition source_items :: "env \<Rightarrow> string \<Rightarrow> obj list" where
  "source_items env src =
     (case tryParseJSONFeed env src of
        Some jf \<Rightarrow> map (set_source src) (feed_items jf)
      | None \<Rightarrow>
          (case parseURL env src of
             None \<Rightarrow> []
           | Some its \<Rightarrow> map (set_source src) its))"

fun collect :: "env \<Rightarrow> string list \<Rightarrow> obj list" where
  "collect env [] = []"
| "collect env (src # srcs) = source_items env src @ collect env srcs"

text \<open>The deduplication loop, with the set \<^verbatim>\<open>seen\<close> as its state.\<close>

fun dedupe :: "string set \<Rightarrow> item list \<Rightarrow> error + item list" where
  "dedupe seen [] = Inr []"
| "dedupe seen (it # rest) =
     (case call_trim (link it) of
        Inl e \<Rightarrow> Inl e
      | Inr key \<Rightarrow>
          (if key = [] \<or> key \<in> seen then dedupe seen rest
           else
             (case dedupe (insert key seen) rest of
                Inl e \<Rightarrow> Inl e
              | Inr ds \<Rightarrow> Inr (it # ds))))"

text \<open>
  \<^verbatim>\<open>deduped.sort((a, b) => b.date - a.date)\<close>. The comparator subtracts the time values;
  with an invalid date the difference is \<^verbatim>\<open>NaN\<close> (\<open>None\<close>), which the sort reads as 0.
  The sort is stable. It is modelled as an insertion sort: each element is put before the
  first element of the sorted rest that it does not have to follow. Where the comparator
  is inconsistent (an invalid date) the standard leaves the order to the engine, and an
  engine's order can differ from the one of this algorithm; the model is the sort of the
  program on valid dates, and a permutation of its input always.
\<close>

definition comparefn :: "item \<Rightarrow> item \<Rightarrow> int option" where
  "comparefn a b =
     (case (date b, date a) of
        (Some y, Some x) \<Rightarrow> Some (y - x)
      | _ \<Rightarrow> None)"

definition sort_compare :: "item \<Rightarrow> item \<Rightarrow> int" where
  "sort_compare a b = (case comparefn a b of None \<Rightarrow> 0 | Some v \<Rightarrow> v)"

fun sort_insert :: "item \<Rightarrow> item list \<Rightarrow> item list" where
  "sort_insert x [] = [x]"
| "sort_insert x (y # ys) =
     (if sort_compare x y \<le> 0 then x # y # ys else y # sort_insert x ys)"

definition js_sort :: "item list \<Rightarrow> item list" where
  "js_sort xs = foldr sort_insert xs []"

definition refresh_from :: "env \<Rightarrow> string list \<Rightarrow> error + cache" where
  "refresh_from env srcs =
     (case map_items (normalize env) (collect env srcs) of
        Inl e \<Rightarrow> Inl e
      | Inr normalized \<Rightarrow>
          (case dedupe {} (filter (\<lambda>it. truthy (link it)) normalized) of
             Inl e \<Rightarrow> Inl e
           | Inr deduped \<Rightarrow> Inr \<lparr>items = js_sort deduped, lastBuild = now env\<rparr>))"

definition SOURCES :: "string list" where
  "SOURCES =
     [''https://hnrss.org/frontpage'',
      ''https://www.youtube.com/feeds/videos.xml?channel_id=UC_x5XG1OV2P6uZZ5FSM9TQ'',
      ''https://blog.mozilla.org/feed/'',
      ''https://daringfireball.net/feeds/json'']"

text \<open>\<^verbatim>\<open>refresh\<close> assigns \<^verbatim>\<open>CACHE\<close> as its last step: the new cache when nothing was
  raised, and on an exception the cache stays as it was.\<close>

definition refresh :: "env \<Rightarrow> error + cache" where
  "refresh env = refresh_from env SOURCES"

section \<open>Feed renderer: \<^verbatim>\<open>buildFeeds\<close>\<close>

text \<open>\<^verbatim>\<open>`${v}`\<close> and the conversion of an array element by \<^verbatim>\<open>join\<close>.\<close>

definition to_str :: "env \<Rightarrow> jsval \<Rightarrow> error + string" where
  "to_str env v =
     (case v of
        Str s \<Rightarrow> Inr s
      | Undefined \<Rightarrow> Inr ''undefined''
      | Null \<Rightarrow> Inr ''null''
      | Bool b \<Rightarrow> Inr (if b then ''true'' else ''false'')
      | _ \<Rightarrow> to_string env v)"

text \<open>The argument of \<^verbatim>\<open>feed.addItem\<close>; \<open>None\<close> is \<^verbatim>\<open>undefined\<close>.\<close>

record entry =
  e_id :: jsval
  e_title :: jsval
  e_link :: jsval
  e_date :: "int option"
  e_description :: jsval
  e_content :: string
  e_author :: "jsval option"
  e_enclosure :: "media option"

text \<open>The image block, the video block, the description and the attribution, as the
  loop body pushes them onto \<^verbatim>\<open>contentBlocks\<close>.\<close>

definition image_block :: "env \<Rightarrow> item \<Rightarrow> error + string list" where
  "image_block env it =
     (if truthy (imageUrl it) then
        (case to_str env (imageUrl it) of
           Inl e \<Rightarrow> Inl e
         | Inr u \<Rightarrow> Inr [''<p><img src='' @ [dquote] @ u @ [dquote] @ '' alt='' @ [dquote, dquote] @ '' /></p>''])
      else Inr [])"

definition video_block :: "env \<Rightarrow> item \<Rightarrow> error + string list" where
  "video_block env it =
     (case video it of
        None \<Rightarrow> Inr []
      | Some v \<Rightarrow>
          (case call_startsWith (mtype v) ''video/'' of
             Inl e \<Rightarrow> Inl e
           | Inr direct \<Rightarrow>
               (case to_str env (url v) of
                  Inl e \<Rightarrow> Inl e
                | Inr u \<Rightarrow>
                    Inr [if direct
                         then ''<p><video controls src='' @ [dquote] @ u @ [dquote] @ '' style=''
                              @ [dquote] @ ''max-width:100%'' @ [dquote] @ ''></video></p>''
                         else ''<p><a href='' @ [dquote] @ u @ [dquote] @ ''>Watch video</a></p>''])))"

definition description_block :: "env \<Rightarrow> item \<Rightarrow> error + string list" where
  "description_block env it =
     (if truthy (description it) then
        (case to_str env (description it) of Inl e \<Rightarrow> Inl e | Inr d \<Rightarrow> Inr [d])
      else Inr [])"

definition source_block :: "env \<Rightarrow> item \<Rightarrow> error + string list" where
  "source_block env it =
     (case to_str env (source it) of
        Inl e \<Rightarrow> Inl e
      | Inr s \<Rightarrow> Inr [''<p><small>Source: '' @ s @ ''</small></p>''])"

text \<open>\<^verbatim>\<open>contentBlocks.join("\n")\<close>\<close>

fun join_lines :: "string list \<Rightarrow> string" where
  "join_lines [] = []"
| "join_lines [x] = x"
| "join_lines (x # y # ys) = x @ CHR 0x0A # join_lines (y # ys)"

definition contentBlocks :: "env \<Rightarrow> item \<Rightarrow> error + string list" where
  "contentBlocks env it =
     (case image_block env it of
        Inl e \<Rightarrow> Inl e
      | Inr a \<Rightarrow>
          (case video_block env it of
             Inl e \<Rightarrow> Inl e
           | Inr b \<Rightarrow>
               (case description_block env it of
                  Inl e \<Rightarrow> Inl e
                | Inr c \<Rightarrow>
                    (case source_block env it of
                       Inl e \<Rightarrow> Inl e
                     | Inr d \<Rightarrow> Inr (a @ b @ c @ d)))))"

text \<open>\<^verbatim>\<open>item.description?.replace(/<[^>]+>/g, "").slice(0, 280)\<close>\<close>

definition summary :: "jsval \<Rightarrow> error + jsval" where
  "summary d =
     (case d of
        Undefined \<Rightarrow> Inr Undefined
      | Null \<Rightarrow> Inr Undefined
      | Str s \<Rightarrow> Inr (Str (take 280 (strip_tags s)))
      | _ \<Rightarrow> Inl TypeError)"

text \<open>The primary enclosure: the video, else the original enclosure, else the image.\<close>

definition primary_enclosure :: "item \<Rightarrow> media option" where
  "primary_enclosure it =
     (case video it of
        Some v \<Rightarrow> Some \<lparr>url = url v, mtype = mtype v\<rparr>
      | None \<Rightarrow>
          (if truthy (enclosure it)
           then Some \<lparr>url = getv (enclosure it) ''url'',
                      mtype = js_or (getv (enclosure it) ''type'') (Str [])\<rparr>
           else if truthy (imageUrl it)
           then Some \<lparr>url = imageUrl it, mtype = Str ''image/jpeg''\<rparr>
           else None))"

definition feed_entry :: "env \<Rightarrow> item \<Rightarrow> error + entry" where
  "feed_entry env it =
     (case contentBlocks env it of
        Inl e \<Rightarrow> Inl e
      | Inr blocks \<Rightarrow>
          (case summary (description it) of
             Inl e \<Rightarrow> Inl e
           | Inr d \<Rightarrow>
               Inr \<lparr>e_id = link it,
                    e_title = title it,
                    e_link = link it,
                    e_date = date it,
                    e_description = d,
                    e_content = join_lines blocks,
                    e_author = (if truthy (authorName it) then Some (authorName it) else None),
                    e_enclosure = primary_enclosure it\<rparr>))"

text \<open>
  The \<^verbatim>\<open>Feed\<close> object after the loop: its options are constants but for \<^verbatim>\<open>updated\<close>, and
  \<^verbatim>\<open>addItem\<close> appends. The three serialisers belong to the \<^verbatim>\<open>feed\<close> package and are
  parameters; like every call they can raise.
\<close>

record feed =
  updated :: int
  entries :: "entry list"

record feedlib =
  rss2 :: "feed \<Rightarrow> error + string"
  atom1 :: "feed \<Rightarrow> error + string"
  json1 :: "feed \<Rightarrow> error + string"

record documents =
  rss :: string
  atom :: string
  json_doc :: string

definition build_feed :: "env \<Rightarrow> cache \<Rightarrow> error + feed" where
  "build_feed env c =
     (case map_items (feed_entry env) (items c) of
        Inl e \<Rightarrow> Inl e
      | Inr es \<Rightarrow> Inr \<lparr>updated = lastBuild c, entries = es\<rparr>)"

definition buildFeeds :: "feedlib \<Rightarrow> env \<Rightarrow> cache \<Rightarrow> error + documents" where
  "buildFeeds lib env c =
     (case build_feed env c of
        Inl e \<Rightarrow> Inl e
      | Inr f \<Rightarrow>
          (case rss2 lib f of
             Inl e \<Rightarrow> Inl e
           | Inr r \<Rightarrow>
               (case atom1 lib f of
                  Inl e \<Rightarrow> Inl e
                | Inr a \<Rightarrow>
                    (case json1 lib f of
                       Inl e \<Rightarrow> Inl e
                     | Inr j \<Rightarrow> Inr \<lparr>rss = r, atom = a, json_doc = j\<rparr>))))"

section \<open>What the specification says of the cache and of the adapters\<close>

text \<open>The deduplication key of an item: its link trimmed of surrounding white space.\<close>

definition link_key :: "item \<Rightarrow> string" where
  "link_key it = (case link it of Str s \<Rightarrow> trim s | _ \<Rightarrow> [])"

text \<open>\<^verbatim>\<open>a.date >= b.date\<close> on two \<^verbatim>\<open>Date\<close> objects compares their time values; with an
  invalid date on either side the comparison is false.\<close>

definition date_ge :: "int option \<Rightarrow> int option \<Rightarrow> bool" where
  "date_ge a b = (case (a, b) of (Some x, Some y) \<Rightarrow> y \<le> x | _ \<Rightarrow> False)"

fun date_desc :: "item list \<Rightarrow> bool" where
  "date_desc (a # b # rest) = (date_ge (date a) (date b) \<and> date_desc (b # rest))"
| "date_desc xs = True"

text \<open>
  First-seen selection in the words of the specification: the item at position \<open>i\<close> stays
  when no earlier item bears its key. \<open>claimed_first_seen\<close> is the selection as the claim
  words it; \<open>first_seen\<close> also leaves out the items whose key is empty, as the guard
  \<^verbatim>\<open>!key\<close> of the loop does.
\<close>

definition claimed_first_seen :: "item list \<Rightarrow> item list" where
  "claimed_first_seen xs =
     map (nth xs)
       (filter (\<lambda>i. link_key (xs ! i) \<notin> set (map link_key (take i xs))) [0..<length xs])"

definition first_seen :: "item list \<Rightarrow> item list" where
  "first_seen xs =
     map (nth xs)
       (filter (\<lambda>i. link_key (xs ! i) \<noteq> []
                   \<and> link_key (xs ! i) \<notin> set (map link_key (take i xs)))
          [0..<length xs])"

text \<open>A source fails in a cycle when neither the JSON attempt nor the RSS parser gives
  a feed.\<close>

definition source_fails :: "env \<Rightarrow> string \<Rightarrow> bool" where
  "source_fails env src = (tryParseJSONFeed env src = None \<and> parseURL env src = None)"

text \<open>A value where the program expects a string: a string, or nothing (any falsy
  value: the \<^verbatim>\<open>||\<close> chains skip it). A raw item is string-typed when the fields the
  normalizer and the media extractor call string methods on are such values.\<close>

definition stringish :: "jsval \<Rightarrow> bool" where
  "stringish v = (case v of Str s \<Rightarrow> True | _ \<Rightarrow> \<not> truthy v)"

definition string_typed :: "obj \<Rightarrow> bool" where
  "string_typed it =
     (stringish (field it ''isoDate'') \<and> stringish (field it ''pubDate'')
      \<and> stringish (field it ''link'') \<and> stringish (field it ''guid'')
      \<and> stringish (field it ''contentEncoded'') \<and> stringish (field it ''content:encoded'')
      \<and> stringish (field it ''content'')
      \<and> stringish (getv (field it ''enclosure'') ''type''))"

text \<open>The same for an element of the \<^verbatim>\<open>items\<close> array of a JSON source, on the fields the
  adapter maps into those.\<close>

definition json_typed :: "jsval \<Rightarrow> bool" where
  "json_typed it =
     (stringish (getv it ''url'') \<and> stringish (getv it ''external_url'')
      \<and> stringish (getv it ''date_published'') \<and> stringish (getv it ''date_modified'')
      \<and> stringish (getv it ''content_html'') \<and> stringish (getv it ''content_text'')
      \<and> stringish (getv (index0 (getv it ''attachments'')) ''mime_type''))"

text \<open>
  The conditions the specification gives for the JSON branch, stated apart from the tests
  of the adapter: the content type the response declares, the top-level \<^verbatim>\<open>items\<close> array
  of the parsed body (of a body that is an object with an array under that name), and
  what it is for a content type to contain a piece of text.
\<close>

definition contains :: "string \<Rightarrow> string \<Rightarrow> bool" where
  "contains s p = (\<exists>pre suf. s = pre @ p @ suf)"

definition declared_type :: "env \<Rightarrow> string \<Rightarrow> string option" where
  "declared_type env src =
     (case fetch env src of None \<Rightarrow> None | Some res \<Rightarrow> content_type res)"

definition items_of :: "jsval \<Rightarrow> jsval list option" where
  "items_of data =
     (case data of
        Obj ps \<Rightarrow> (case field ps ''items'' of Arr xs \<Rightarrow> Some xs | _ \<Rightarrow> None)
      | _ \<Rightarrow> None)"

definition body_items :: "env \<Rightarrow> string \<Rightarrow> jsval list option" where
  "body_items env src =
     (case fetch env src of
        None \<Rightarrow> None
      | Some res \<Rightarrow> (case json res of None \<Rightarrow> None | Some data \<Rightarrow> items_of data))"

text \<open>The array the adapter gets to map: the \<^verbatim>\<open>items\<close> array of a response that passed
  the adapter's own test of the content type.\<close>

definition json_items :: "env \<Rightarrow> string \<Rightarrow> jsval list option" where
  "json_items env src =
     (case fetch env src of
        None \<Rightarrow> None
      | Some res \<Rightarrow>
          (case content_type res of
             None \<Rightarrow> None
           | Some ct \<Rightarrow>
               (if is_json_type ct
                then (case json res of None \<Rightarrow> None | Some data \<Rightarrow> items_of data)
                else None)))"

text \<open>The RSS/Atom path of the loop body in \<^verbatim>\<open>refresh\<close>.\<close>

definition rss_items :: "env \<Rightarrow> string \<Rightarrow> obj list" where
  "rss_items env src =
     (case parseURL env src of None \<Rightarrow> [] | Some its \<Rightarrow> map (set_source src) its)"

text \<open>A well-formed cache holds items typed as the Item entity of the specification:
  strings for title, link, description, author name and source, a valid date, and an
  image, a video and an enclosure that may each be null.\<close>

definition is_str :: "jsval \<Rightarrow> bool" where
  "is_str v = (case v of Str s \<Rightarrow> True | _ \<Rightarrow> False)"

definition wf_item :: "item \<Rightarrow> bool" where
  "wf_item it =
     (is_str (title it) \<and> is_str (link it) \<and> link it \<noteq> Str [] \<and> date it \<noteq> None
      \<and> is_str (description it) \<and> is_str (authorName it)
      \<and> (imageUrl it = Null \<or> is_str (imageUrl it))
      \<and> (case video it of None \<Rightarrow> True | Some v \<Rightarrow> is_str (url v) \<and> is_str (mtype v))
      \<and> (case enclosure it of Null \<Rightarrow> True | Obj ps \<Rightarrow> True | _ \<Rightarrow> False)
      \<and> is_str (source it))"

definition wf_cache :: "cache \<Rightarrow> bool" where
  "wf_cache c = list_all wf_item (items c)"

text \<open>An item with no media: the image, the video and the enclosure are null.\<close>

definition no_media :: "item \<Rightarrow> bool" where
  "no_media it = (imageUrl it = Null \<and> video it = None \<and> enclosure it = Null)"

text \<open>The content body of an item with no media: its description, when there is one,
  and the attribution line.\<close>

definition plain_content :: "item \<Rightarrow> string" where
  "plain_content it =
     (case (description it, source it) of
        (Str d, Str s) \<Rightarrow>
          join_lines ((if d = [] then [] else [d]) @ [''<p><small>Source: '' @ s @ ''</small></p>''])
      | _ \<Rightarrow> [])"

section \<open>Example inputs\<close>

text \<open>
  The end-to-end scenario of the specification: an RSS source with the item \<^verbatim>\<open>a\<close> of
  2024-01-01, and a JSON Feed with \<^verbatim>\<open>a\<close> of 2024-01-02 and \<^verbatim>\<open>b\<close> of 2023-12-01. The
  date parser of the example knows the three dates and nothing else.
\<close>

definition example_parse_date :: "string \<Rightarrow> int option" where
  "example_parse_date s =
     (if s = ''2024-01-01'' then Some 1704067200000
      else if s = ''2024-01-02'' then Some 1704153600000
      else if s = ''2023-12-01'' then Some 1701388800000
      else None)"

definition env0 :: env where
  "env0 =
     \<lparr>now = 1700000000000,
      parse_date = example_parse_date,
      toISOString = (\<lambda>t. ''2023-11-14T22:13:20.000Z''),
      stringify = (\<lambda>v. ''[]''),
      to_string = (\<lambda>v. Inr ''[object Object]''),
      fetch = (\<lambda>u. if u = ''json''
                     then Some \<lparr>content_type = Some ''application/json; charset=utf-8'',
                                 json = Some (Obj [(''items'',
                                   Arr [Obj [(''url'', Str ''a''),
                                             (''date_published'', Str ''2024-01-02'')],
                                        Obj [(''url'', Str ''b''),
                                             (''date_published'', Str ''2023-12-01'')]])])\<rparr>
                     else None),
      parseURL = (\<lambda>u. if u = ''rss''
                        then Some [[(''link'', Str ''a''), (''isoDate'', Str ''2024-01-01'')]]
                        else None)\<rparr>"

definition cache0 :: cache where
  "cache0 =
     \<lparr>items =
        [\<lparr>title = Str ''(untitled)'', link = Str ''a'', date = Some 1704067200000,
          description = Str [], authorName = Str [], imageUrl = Null, video = None,
          enclosure = Null, source = Str ''rss''\<rparr>,
         \<lparr>title = Str ''(untitled)'', link = Str ''b'', date = Some 1701388800000,
          description = Str [], authorName = Str [], imageUrl = Null, video = None,
          enclosure = Null, source = Str ''json''\<rparr>],
      lastBuild = 1700000000000\<rparr>"

text \<open>Three items as the normalizer leaves them: \<^verbatim>\<open>a\<close> from the RSS source, \<^verbatim>\<open>a\<close>
  again from the JSON source with white space around the link, another date and another
  content, and \<^verbatim>\<open>b\<close>.\<close>

definition item_a_rss :: item where
  "item_a_rss =
     \<lparr>title = Str ''(untitled)'', link = Str ''a'', date = Some 1704067200000,
      description = Str [], authorName = Str [], imageUrl = Null, video = None,
      enclosure = Null, source = Str ''rss''\<rparr>"

definition item_a_json :: item where
  "item_a_json =
     \<lparr>title = Str ''(untitled)'', link = Str '' a '', date = Some 1704153600000,
      description = Str ''other content'', authorName = Str [], imageUrl = Null, video = None,
      enclosure = Null, source = Str ''json''\<rparr>"

definition item_b_json :: item where
  "item_b_json =
     \<lparr>title = Str ''(untitled)'', link = Str ''b'', date = Some 1701388800000,
      description = Str [], authorName = Str [], imageUrl = Null, video = None,
      enclosure = Null, source = Str ''json''\<rparr>"

text \<open>An item whose link is two spaces: truthy, so it passes the filter, and empty once
  trimmed.\<close>

definition blank_item :: item where
  "blank_item =
     \<lparr>title = Str ''(untitled)'', link = Str ''  '', date = Some 0,
      description = Str [], authorName = Str [], imageUrl = Null, video = None,
      enclosure = Null, source = Str ''rss''\<rparr>"

text \<open>An RSS source with three items; the date of the second, \<^verbatim>\<open>yesterday\<close>, is one no
  engine parses. \<open>cache1\<close> is the cache the refresh installs.\<close>

definition env1 :: env where
  "env1 =
     env0\<lparr>fetch := (\<lambda>u. None),
          parseURL := (\<lambda>u. if u = ''rss''
            then Some [[(''link'', Str ''old''), (''isoDate'', Str ''2023-12-01'')],
                       [(''link'', Str ''bad''), (''pubDate'', Str ''yesterday'')],
                       [(''link'', Str ''new''), (''isoDate'', Str ''2024-01-02'')]]
            else None)\<rparr>"

definition cache1 :: cache where
  "cache1 =
     \<lparr>items =
        [\<lparr>title = Str ''(untitled)'', link = Str ''old'', date = Some 1701388800000,
          description = Str [], authorName = Str [], imageUrl = Null, video = None,
          enclosure = Null, source = Str ''rss''\<rparr>,
         \<lparr>title = Str ''(untitled)'', link = Str ''bad'', date = None,
          description = Str [], authorName = Str [], imageUrl = Null, video = None,
          enclosure = Null, source = Str ''rss''\<rparr>,
         \<lparr>title = Str ''(untitled)'', link = Str ''new'', date = Some 1704153600000,
          description = Str [], authorName = Str [], imageUrl = Null, video = None,
          enclosure = Null, source = Str ''rss''\<rparr>],
      lastBuild = 1700000000000\<rparr>"

text \<open>The last of the configured sources answers with JSON whose one item has a number
  for its \<^verbatim>\<open>url\<close>; the other sources are down.\<close>

definition env_bad :: env where
  "env_bad =
     env0\<lparr>fetch := (\<lambda>u. if u = ''https://daringfireball.net/feeds/json''
            then Some \<lparr>content_type = Some ''application/json'',
                        json = Some (Obj [(''items'', Arr [Obj [(''url'', Num 5)]])])\<rparr>
            else None),
          parseURL := (\<lambda>u. None)\<rparr>"

text \<open>A source that declares JSON and whose \<^verbatim>\<open>items\<close> array holds \<^verbatim>\<open>null\<close>.\<close>

definition env_null :: env where
  "env_null =
     env0\<lparr>fetch := (\<lambda>u. Some \<lparr>content_type = Some ''application/json'',
                                 json = Some (Obj [(''items'', Arr [Null])])\<rparr>)\<rparr>"

text \<open>Raw items with an image tag in the content and an image enclosure, with and
  without a URL in the enclosure; the same for a video enclosure and a watch-page link;
  raw items with and without a date that parses.\<close>

definition img_html :: string where
  "img_html = ''<p><img src='' @ [dquote] @ ''http://x.example/scraped.png'' @ [dquote] @ ''></p>''"

definition raw_img_nourl :: obj where
  "raw_img_nourl =
     [(''link'', Str ''http://x.example/post''),
      (''enclosure'', Obj [(''url'', Str []), (''type'', Str ''image/png'')]),
      (''content'', Str img_html)]"

definition raw_img :: obj where
  "raw_img =
     [(''link'', Str ''http://x.example/post''),
      (''enclosure'',
         Obj [(''url'', Str ''http://x.example/cover.png''), (''type'', Str ''image/png'')]),
      (''content'', Str img_html)]"

definition raw_vid_nourl :: obj where
  "raw_vid_nourl =
     [(''link'', Str ''https://www.youtube.com/watch?v=abc''),
      (''enclosure'', Obj [(''url'', Str []), (''type'', Str ''video/mp4'')])]"

definition raw_vid :: obj where
  "raw_vid =
     [(''link'', Str ''https://www.youtube.com/watch?v=abc''),
      (''enclosure'',
         Obj [(''url'', Str ''http://x.example/clip.mp4''), (''type'', Str ''video/mp4'')])]"

definition raw_scan :: obj where
  "raw_scan = [(''link'', Str ''http://x.example/post''),
               (''content'', Str ''see http://x.example/a.WEBM now'')]"

definition raw_undated :: obj where
  "raw_undated = [(''link'', Str ''http://x.example/post''), (''pubDate'', Str ''yesterday'')]"

definition item_undated :: item where
  "item_undated =
     \<lparr>title = Str ''(untitled)'', link = Str ''http://x.example/post'', date = None,
      description = Str [], authorName = Str [], imageUrl = Null, video = None,
      enclosure = Null, source = Undefined\<rparr>"

definition raw_nodate :: obj where
  "raw_nodate = [(''link'', Str ''http://x.example/post'')]"

definition item_now :: item where
  "item_now =
     \<lparr>title = Str ''(untitled)'', link = Str ''http://x.example/post'',
      date = Some 1700000000000, description = Str [], authorName = Str [], imageUrl = Null,
      video = None, enclosure = Null, source = Undefined\<rparr>"

definition raw_dated :: obj where
  "raw_dated = [(''link'', Str ''a''), (''isoDate'', Str ''2024-01-01'')]"

text \<open>A JSON Feed served under the media type registered for JSON Feed; the RSS parser
  raises on it, since it is not XML.\<close>

definition env_fj :: env where
  "env_fj =
     env0\<lparr>fetch := (\<lambda>u. Some
            \<lparr>content_type = Some ''application/feed+json'',
             json = Some (Obj [(''version'', Str ''https://jsonfeed.org/version/1.1''),
                               (''title'', Str ''A feed''),
                               (''items'',
                                  Arr [Obj [(''id'', Str ''1''),
                                            (''url'', Str ''https://x.example/1''),
                                            (''content_text'', Str ''hello'')]])])\<rparr>),
          parseURL := (\<lambda>u. None)\<rparr>"

text \<open>An RSS source with one item whose content has an image with a relative URL, the
  item as the normalizer leaves it, and the cache the refresh installs.\<close>

definition rel_html :: string where
  "rel_html = ''<p><img src='' @ [dquote] @ ''/images/a.png'' @ [dquote] @ ''> A post.</p>''"

definition env_rel :: env where
  "env_rel =
     env0\<lparr>fetch := (\<lambda>u. None),
          parseURL := (\<lambda>u. if u = ''https://x.example/rss''
            then Some [[(''title'', Str ''A post''),
                        (''link'', Str ''https://x.example/post''),
                        (''isoDate'', Str ''2024-01-01''),
                        (''content'', Str rel_html)]]
            else None)\<rparr>"

definition item_rel :: item where
  "item_rel =
     \<lparr>title = Str ''A post'', link = Str ''https://x.example/post'',
      date = Some 1704067200000, description = Str rel_html, authorName = Str [],
      imageUrl = Str ''/images/a.png'', video = None, enclosure = Null,
      source = Str ''https://x.example/rss''\<rparr>"

definition cache_rel :: cache where
  "cache_rel = \<lparr>items = [item_rel], lastBuild = 1700000000000\<rparr>"

section \<open>Lemmas\<close>

subsection \<open>The sort\<close>

lemma set_sort_insert: "set (sort_insert x ys) = insert x (set ys)"
  by (induction ys) auto

lemma js_sort_Cons: "js_sort (x # xs) = sort_insert x (js_sort xs)"
  by (simp add: js_sort_def)

lemma set_js_sort: "set (js_sort xs) = set xs"
  by (induction xs) (simp_all add: js_sort_def set_sort_insert)

lemma distinct_map_sort_insert:
  "distinct (map f (sort_insert x ys)) = (f x \<notin> f ` set ys \<and> distinct (map f ys))"
  by (induction ys) (auto simp: set_sort_insert)

lemma distinct_map_js_sort: "distinct (map f (js_sort xs)) = distinct (map f xs)"
proof (induction xs)
  case Nil
  show ?case by (simp add: js_sort_def)
next
  case (Cons x xs)
  then show ?case
    by (simp add: js_sort_Cons distinct_map_sort_insert set_js_sort)
qed

lemma sorted_wrt_date_desc:
  "sorted_wrt (\<lambda>a b. date_ge (date a) (date b)) xs \<Longrightarrow> date_desc xs"
  by (induction xs rule: date_desc.induct) auto

lemma sort_compare_valid:
  "date x = Some a \<Longrightarrow> date y = Some b \<Longrightarrow> sort_compare x y = b - a"
  by (simp add: sort_compare_def comparefn_def)

lemma sorted_sort_insert:
  assumes "\<forall>y\<in>set ys. date y \<noteq> None" "date x \<noteq> None"
    and "sorted_wrt (\<lambda>a b. date_ge (date a) (date b)) ys"
  shows "sorted_wrt (\<lambda>a b. date_ge (date a) (date b)) (sort_insert x ys)"
  using assms
proof (induction ys)
  case Nil
  then show ?case by simp
next
  case (Cons y ys)
  from Cons.prems obtain a b where ab: "date x = Some a" "date y = Some b" by auto
  show ?case
  proof (cases "sort_compare x y \<le> 0")
    case True
    with ab have ge: "date_ge (date x) (date y)"
      by (simp add: sort_compare_valid date_ge_def)
    have "\<forall>z\<in>set ys. date_ge (date x) (date z)"
    proof
      fix z assume z: "z \<in> set ys"
      with Cons.prems have "date_ge (date y) (date z)" by auto
      with ge ab show "date_ge (date x) (date z)"
        by (auto simp: date_ge_def split: option.splits)
    qed
    with True ge Cons.prems show ?thesis by auto
  next
    case False
    with ab have ge: "date_ge (date y) (date x)"
      by (simp add: sort_compare_valid date_ge_def)
    from Cons have "sorted_wrt (\<lambda>a b. date_ge (date a) (date b)) (sort_insert x ys)" by auto
    with False ge Cons.prems show ?thesis
      by (auto simp: set_sort_insert)
  qed
qed

lemma sorted_js_sort:
  "\<forall>y\<in>set xs. date y \<noteq> None \<Longrightarrow>
   sorted_wrt (\<lambda>a b. date_ge (date a) (date b)) (js_sort xs)"
proof (induction xs)
  case Nil
  show ?case by (simp add: js_sort_def)
next
  case (Cons x xs)
  then show ?case
    by (simp add: js_sort_Cons sorted_sort_insert set_js_sort)
qed

text \<open>No arrangement of two or more items is in date order once one of them has an
  invalid date.\<close>

lemma invalid_date_breaks_order:
  "x \<in> set xs \<Longrightarrow> date x = None \<Longrightarrow> 2 \<le> length xs \<Longrightarrow> \<not> date_desc xs"
proof (induction xs rule: date_desc.induct)
  case (1 a b rest)
  show ?case
  proof (cases "date a = None \<or> date b = None")
    case True
    then show ?thesis by (auto simp: date_ge_def split: option.splits)
  next
    case False
    with "1.prems" have "x \<in> set (b # rest)" "2 \<le> length (b # rest)"
      by (auto simp: Suc_le_eq)
    with "1.IH" "1.prems" show ?thesis by simp
  qed
qed simp_all

subsection \<open>The deduplication loop\<close>

lemma call_trim_Inr: "call_trim v = Inr k \<Longrightarrow> \<exists>s. v = Str s \<and> k = trim s"
  by (cases v) (auto simp: call_trim_def)

lemma trim_nonempty: "trim s \<noteq> [] \<Longrightarrow> s \<noteq> []"
  by (auto simp: trim_def)

lemma dedupe_props:
  "dedupe seen xs = Inr ys \<Longrightarrow>
     (\<forall>y\<in>set ys. (\<exists>s. link y = Str s) \<and> link_key y \<noteq> [] \<and> link_key y \<notin> seen)
     \<and> distinct (map link_key ys) \<and> set ys \<subseteq> set xs"
proof (induction xs arbitrary: seen ys)
  case Nil
  then show ?case by simp
next
  case (Cons x xs)
  from Cons.prems obtain k where k: "call_trim (link x) = Inr k"
    by (auto split: sum.splits)
  then obtain s where s: "link x = Str s" "k = trim s"
    using call_trim_Inr by blast
  have lk: "link_key x = k" by (simp add: link_key_def s)
  show ?case
  proof (cases "k = [] \<or> k \<in> seen")
    case True
    with Cons.prems k have "dedupe seen xs = Inr ys" by auto
    from Cons.IH [OF this] show ?thesis by auto
  next
    case False
    with Cons.prems k obtain ds where ds: "dedupe (insert k seen) xs = Inr ds" "ys = x # ds"
      by (auto split: sum.splits)
    from Cons.IH [OF ds(1)] False lk s show ?thesis
      unfolding ds(2) by auto
  qed
qed

lemma dedupe_Inr_strings: "dedupe seen xs = Inr ys \<Longrightarrow> \<forall>x\<in>set xs. is_str (link x)"
proof (induction xs arbitrary: seen ys)
  case Nil
  show ?case by simp
next
  case (Cons x xs)
  from Cons.prems obtain k where k: "call_trim (link x) = Inr k"
    by (auto split: sum.splits)
  then have x: "is_str (link x)"
    by (cases "link x") (auto simp: call_trim_def is_str_def)
  from Cons.prems k have "\<exists>sn zs. dedupe sn xs = Inr zs"
    by (auto split: sum.splits if_splits)
  with Cons.IH x show ?case by auto
qed

lemma upt_0_Suc: "[0..<Suc n] = 0 # map Suc [0..<n]"
  by (simp add: upt_conv_Cons map_Suc_upt del: upt_Suc)

lemma dedupe_Str:
  "link x = Str s \<Longrightarrow>
   dedupe seen (x # xs) =
     (if trim s = [] \<or> trim s \<in> seen then dedupe seen xs
      else (case dedupe (insert (trim s) seen) xs of Inl e \<Rightarrow> Inl e | Inr ds \<Rightarrow> Inr (x # ds)))"
  by (simp add: call_trim_def)

text \<open>The loop with any set of keys seen so far: position \<open>i\<close> stays when its key is
  not empty, was not seen before the loop and is the key of no earlier position.\<close>

lemma dedupe_selection:
  assumes "\<forall>x\<in>set xs. is_str (link x)"
  shows "dedupe seen xs =
     Inr (map (nth xs)
       (filter (\<lambda>i. link_key (xs ! i) \<noteq> []
                   \<and> link_key (xs ! i) \<notin> seen \<union> set (map link_key (take i xs)))
          [0..<length xs]))"
  using assms
proof (induction xs arbitrary: seen)
  case Nil
  show ?case by simp
next
  case (Cons x xs)
  from Cons.prems obtain s where s: "link x = Str s"
    by (cases "link x") (auto simp: is_str_def)
  then have k: "link_key x = trim s" by (simp add: link_key_def)
  from Cons.prems have rest: "\<forall>x\<in>set xs. is_str (link x)" by simp
  let ?P = "\<lambda>sn ys i. link_key (ys ! i) \<noteq> []
              \<and> link_key (ys ! i) \<notin> sn \<union> set (map link_key (take i ys))"
  have tl: "filter (?P seen (x # xs) \<circ> Suc) [0..<length xs]
      = filter (?P (insert (trim s) seen) xs) [0..<length xs]"
    by (rule filter_cong) (auto simp: k)
  have shift: "filter (?P seen (x # xs)) [0..<Suc (length xs)] =
      (if ?P seen (x # xs) 0 then [0] else [])
        @ map Suc (filter (?P (insert (trim s) seen) xs) [0..<length xs])"
    unfolding upt_0_Suc filter.simps filter_map tl by simp
  have nth_Suc': "map (nth (x # xs)) (map Suc js) = map (nth xs) js" for js
    by simp
  show ?case
  proof (cases "trim s = [] \<or> trim s \<in> seen")
    case True
    have same: "filter (?P (insert (trim s) seen) xs) [0..<length xs]
        = filter (?P seen xs) [0..<length xs]"
      using True by (intro filter_cong) auto
    from True have "\<not> ?P seen (x # xs) 0" by (auto simp: k)
    with shift same have "filter (?P seen (x # xs)) [0..<Suc (length xs)]
        = map Suc (filter (?P seen xs) [0..<length xs])"
      by simp
    then have "map (nth (x # xs)) (filter (?P seen (x # xs)) [0..<length (x # xs)])
        = map (nth xs) (filter (?P seen xs) [0..<length xs])"
      unfolding length_Cons using nth_Suc' by simp
    moreover have "dedupe seen (x # xs) = dedupe seen xs"
      using True by (simp only: dedupe_Str [OF s] if_True)
    ultimately show ?thesis
      using Cons.IH [OF rest, of seen] by simp
  next
    case False
    then have "?P seen (x # xs) 0" by (auto simp: k)
    with shift have "filter (?P seen (x # xs)) [0..<Suc (length xs)]
        = 0 # map Suc (filter (?P (insert (trim s) seen) xs) [0..<length xs])"
      by simp
    then have "map (nth (x # xs)) (filter (?P seen (x # xs)) [0..<length (x # xs)])
        = x # map (nth xs) (filter (?P (insert (trim s) seen) xs) [0..<length xs])"
      unfolding length_Cons using nth_Suc' by simp
    moreover have "dedupe seen (x # xs) =
        (case dedupe (insert (trim s) seen) xs of Inl e \<Rightarrow> Inl e | Inr ds \<Rightarrow> Inr (x # ds))"
      using False by (simp only: dedupe_Str [OF s] if_False)
    ultimately show ?thesis
      using Cons.IH [OF rest, of "insert (trim s) seen"] by simp
  qed
qed

lemma dedupe_strings:
  assumes "\<forall>x\<in>set xs. is_str (link x)"
  shows "dedupe {} xs = Inr (first_seen xs)"
  using dedupe_selection [OF assms, of "{}"] by (simp add: first_seen_def)

subsection \<open>Calls that return\<close>

lemma map_items_total:
  assumes "\<forall>x\<in>set xs. \<exists>y. f x = Inr y \<and> P y"
  shows "\<exists>ys. map_items f xs = Inr ys \<and> (\<forall>y\<in>set ys. P y)"
  using assms
proof (induction xs)
  case Nil
  show ?case by simp
next
  case (Cons x xs)
  then obtain y ys where "f x = Inr y" "P y" "map_items f xs = Inr ys" "\<forall>y\<in>set ys. P y"
    by auto
  then show ?case by simp
qed

lemma map_items_list_all2:
  "(map_items f xs = Inr ys) = list_all2 (\<lambda>x y. f x = Inr y) xs ys"
proof (induction xs arbitrary: ys)
  case Nil
  show ?case by (cases ys) auto
next
  case (Cons x xs)
  show ?case
  proof (cases ys)
    case Nil
    then show ?thesis by (simp split: sum.splits)
  next
    case ys: (Cons y zs)
    have "(map_items f (x # xs) = Inr (y # zs)) = (f x = Inr y \<and> map_items f xs = Inr zs)"
      by (simp split: sum.splits)
    then show ?thesis
      unfolding ys using Cons.IH [of zs] by simp
  qed
qed

lemma is_strE: "is_str v \<Longrightarrow> \<exists>s. v = Str s"
  by (cases v) (simp_all add: is_str_def)

lemma stringish_cases: "stringish v \<Longrightarrow> (\<exists>s. v = Str s) \<or> \<not> truthy v"
  by (cases v) (auto simp: stringish_def)

lemma stringish_truthy: "stringish v \<Longrightarrow> truthy v \<Longrightarrow> \<exists>s. v = Str s"
  using stringish_cases by blast

lemma stringish_js_or: "stringish a \<Longrightarrow> stringish b \<Longrightarrow> stringish (js_or a b)"
  by (simp add: js_or_def)

lemma stringish_Str: "stringish (Str s)"
  by (simp add: stringish_def)

lemma js_or_Str_default: "stringish a \<Longrightarrow> \<exists>s. js_or a (Str t) = Str s"
  using stringish_cases [of a] by (auto simp: js_or_def)

lemma time_clip_int: "\<bar>n\<bar> \<le> 8640000000000000 \<Longrightarrow> time_clip (of_int n) = Some n"
proof -
  assume a: "\<bar>n\<bar> \<le> 8640000000000000"
  have "\<bar>(of_int n :: rat)\<bar> = of_int \<bar>n\<bar>" by simp
  also have "\<dots> \<le> of_int 8640000000000000" using a by (simp only: of_int_le_iff)
  finally have "\<bar>(of_int n :: rat)\<bar> \<le> 8640000000000000" by simp
  then show ?thesis by (simp add: time_clip_def)
qed

lemma item_date_total:
  assumes "stringish (field it ''isoDate'')" "stringish (field it ''pubDate'')"
  shows "\<exists>d. item_date env it = Inr d"
proof -
  let ?v = "js_or (field it ''isoDate'') (field it ''pubDate'')"
  from assms have "stringish ?v" by (rule stringish_js_or)
  then consider s where "?v = Str s" | "\<not> truthy ?v"
    using stringish_cases by blast
  then show ?thesis
  proof cases
    case 1
    then show ?thesis
      by (cases s) (simp_all add: item_date_def new_date_def js_or_def [of "Str _"])
  next
    case 2
    then show ?thesis
      by (simp add: item_date_def new_date_def js_or_def [of ?v])
  qed
qed

lemma startsWith_Nil: "startsWith [] p = (p = [])"
  by (cases p) simp_all

lemma startsWith_append: "startsWith (p @ s) p"
  by (induction p) simp_all

lemma call_startsWith_True:
  "call_startsWith v p = Inr True \<Longrightarrow> \<exists>t. v = Str t \<and> startsWith t p"
  by (cases v) (auto simp: call_startsWith_def)

lemma enclosure_is_total:
  assumes "stringish (getv (field it ''enclosure'') ''type'')"
  shows "\<exists>b. enclosure_is it p = Inr b"
proof -
  from js_or_Str_default [OF assms] obtain s
    where "js_or (getv (field it ''enclosure'') ''type'') (Str []) = Str s" by blast
  then show ?thesis
    by (auto simp: enclosure_is_def call_startsWith_def Let_def)
qed

lemma enclosure_is_True:
  assumes "enclosure_is item p = Inr True" "p \<noteq> []"
  shows "\<exists>t. getv (field item ''enclosure'') ''type'' = Str t \<and> startsWith t p \<and> t \<noteq> []
             \<and> truthy (getv (field item ''enclosure'') ''url'')
             \<and> truthy (field item ''enclosure'')"
proof -
  let ?enc = "field item ''enclosure''"
  from assms(1) have tr: "truthy ?enc" "truthy (getv ?enc ''url'')"
    and c: "call_startsWith (js_or (getv ?enc ''type'') (Str [])) p = Inr True"
    by (auto simp: enclosure_is_def Let_def split: if_splits)
  from call_startsWith_True [OF c] obtain t where
    t: "js_or (getv ?enc ''type'') (Str []) = Str t" "startsWith t p" by blast
  with assms(2) have ne: "t \<noteq> []" by (auto simp: startsWith_Nil)
  with t(1) have "getv ?enc ''type'' = Str t"
    by (auto simp: js_or_def split: if_splits)
  with t ne tr show ?thesis by blast
qed

lemma enclosure_is_holds:
  assumes "truthy (field item ''enclosure'')" "truthy (getv (field item ''enclosure'') ''url'')"
    "getv (field item ''enclosure'') ''type'' = Str t" "startsWith t p" "p \<noteq> []"
  shows "enclosure_is item p = Inr True"
proof -
  from assms(4,5) have "t \<noteq> []" by (auto simp: startsWith_Nil)
  with assms show ?thesis
    by (simp add: enclosure_is_def js_or_def call_startsWith_def)
qed

lemma pickImage_total:
  assumes "string_typed it"
  shows "\<exists>v. pickImage it = Inr v"
proof -
  from assms have t: "stringish (getv (field it ''enclosure'') ''type'')"
    and c: "stringish (field it ''contentEncoded'')" "stringish (field it ''content:encoded'')"
      "stringish (field it ''content'')"
    by (simp_all add: string_typed_def)
  from enclosure_is_total [OF t] obtain b where b: "enclosure_is it ''image/'' = Inr b" by blast
  from c have "stringish (js_or (js_or (field it ''contentEncoded'') (field it ''content:encoded''))
                          (field it ''content''))"
    by (intro stringish_js_or)
  from js_or_Str_default [OF this] obtain h where
    h: "js_or (js_or (js_or (field it ''contentEncoded'') (field it ''content:encoded''))
                          (field it ''content'')) (Str []) = Str h" by blast
  show ?thesis
    by (cases b) (auto simp: pickImage_def b h Let_def call_match_img_def split: option.splits)
qed

lemma pickVideo_total:
  assumes "string_typed it"
  shows "\<exists>v. pickVideo env it = Inr v"
proof -
  from assms have t: "stringish (getv (field it ''enclosure'') ''type'')"
    and c: "stringish (field it ''contentEncoded'')" "stringish (field it ''content'')"
    and l: "stringish (field it ''link'')"
    by (simp_all add: string_typed_def)
  from enclosure_is_total [OF t] obtain b where b: "enclosure_is it ''video/'' = Inr b" by blast
  from c have "stringish (js_or (field it ''contentEncoded'') (field it ''content''))"
    by (intro stringish_js_or)
  from js_or_Str_default [OF this] obtain h where
    h: "js_or (js_or (field it ''contentEncoded'') (field it ''content'')) (Str []) = Str h"
    by blast
  from stringish_cases [OF l] consider s where "field it ''link'' = Str s"
    | "\<not> truthy (field it ''link'')" by blast
  then show ?thesis
  proof cases
    case 1
    then show ?thesis
      by (cases b)
        (auto simp: pickVideo_def b h Let_def call_match_video_def call_includes_def
           split: option.splits bool.splits)
  next
    case 2
    then show ?thesis
      by (cases b)
        (auto simp: pickVideo_def b h Let_def call_match_video_def
           split: option.splits bool.splits)
  qed
qed

lemma normalize_total:
  assumes "string_typed it"
  shows "\<exists>n. normalize env it = Inr n \<and> stringish (link n)"
proof -
  from assms have "stringish (field it ''isoDate'')" "stringish (field it ''pubDate'')"
    by (simp_all add: string_typed_def)
  from item_date_total [OF this] obtain d where d: "item_date env it = Inr d" by blast
  from pickImage_total [OF assms] obtain img where i: "pickImage it = Inr img" by blast
  from pickVideo_total [OF assms] obtain vid where v: "pickVideo env it = Inr vid" by blast
  from assms have "stringish (js_or (js_or (field it ''link'') (field it ''guid'')) (Str []))"
    by (intro stringish_js_or) (simp_all add: string_typed_def stringish_Str)
  then show ?thesis
    by (simp add: normalize_def d i v)
qed

subsection \<open>The loop over the sources\<close>

lemma collect_filter:
  "collect env srcs = collect env (filter (\<lambda>s. \<not> source_fails env s) srcs)"
proof (induction srcs)
  case Nil
  show ?case by simp
next
  case (Cons s srcs)
  have "source_fails env s \<Longrightarrow> source_items env s = []"
    by (simp add: source_fails_def source_items_def)
  with Cons show ?case by simp
qed

lemma collect_all_fail: "\<forall>s\<in>set srcs. source_fails env s \<Longrightarrow> collect env srcs = []"
  by (induction srcs) (simp_all add: source_fails_def source_items_def)

lemma refresh_from_items:
  assumes "refresh_from env srcs = Inr c"
  obtains normalized deduped where
    "map_items (normalize env) (collect env srcs) = Inr normalized"
    "dedupe {} (filter (\<lambda>it. truthy (link it)) normalized) = Inr deduped"
    "items c = js_sort deduped" "lastBuild c = now env"
  using assms by (auto simp: refresh_from_def split: sum.splits)

lemma refresh0: "refresh_from env0 [''rss'', ''json''] = Inr cache0"
  by code_simp

subsection \<open>The JSON adapter\<close>

lemma mapItem_Inr: "(\<exists>ob. mapItem env u it = Inr ob) = (it \<noteq> Null \<and> it \<noteq> Undefined)"
  by (auto simp: mapItem_def Let_def)

lemma map_items_mapItem:
  "(\<exists>obs. map_items (mapItem env u) xs = Inr obs) = (Null \<notin> set xs \<and> Undefined \<notin> set xs)"
proof (induction xs)
  case Nil
  show ?case by simp
next
  case (Cons x xs)
  show ?case
  proof (cases "x = Null \<or> x = Undefined")
    case True
    then have "mapItem env u x = Inl TypeError" by (auto simp: mapItem_def)
    with True show ?thesis by auto
  next
    case False
    with mapItem_Inr [of env u x] obtain ob where "mapItem env u x = Inr ob" by blast
    with False Cons show ?thesis by (auto split: sum.splits)
  qed
qed

lemma getv_items_Arr:
  "truthy data \<and> getv data ''items'' = Arr xs \<longleftrightarrow> items_of data = Some xs"
  by (cases data) (auto simp: items_of_def split: jsval.splits)

lemma tryParseJSONFeed_Some:
  "(tryParseJSONFeed env src \<noteq> None)
   = (\<exists>xs. json_items env src = Some xs \<and> Null \<notin> set xs \<and> Undefined \<notin> set xs)"
proof (cases "fetch env src")
  case None
  then show ?thesis by (simp add: tryParseJSONFeed_def json_items_def)
next
  case (Some res)
  show ?thesis
  proof (cases "content_type res")
    case None
    with Some show ?thesis
      by (simp add: tryParseJSONFeed_def json_items_def is_json_type_def)
  next
    case ct: (Some ct)
    show ?thesis
    proof (cases "is_json_type ct")
      case False
      with Some ct show ?thesis by (simp add: tryParseJSONFeed_def json_items_def)
    next
      case True
      show ?thesis
      proof (cases "json res")
        case None
        with Some ct True show ?thesis by (simp add: tryParseJSONFeed_def json_items_def)
      next
        case data: (Some data)
        show ?thesis
        proof (cases "items_of data")
          case None
          then have "\<not> truthy data \<or> (\<forall>xs. getv data ''items'' \<noteq> Arr xs)"
            using getv_items_Arr [of data] by auto
          with Some ct True data None show ?thesis
            by (auto simp: tryParseJSONFeed_def json_items_def split: jsval.splits)
        next
          case xs: (Some xs)
          then have g: "truthy data" "getv data ''items'' = Arr xs"
            using getv_items_Arr [of data xs] by auto
          have "(tryParseJSONFeed env src \<noteq> None)
              = (\<exists>obs. map_items (mapItem env src) xs = Inr obs)"
            using Some ct True data g
            by (auto simp: tryParseJSONFeed_def split: sum.splits)
          also have "\<dots> = (Null \<notin> set xs \<and> Undefined \<notin> set xs)"
            by (rule map_items_mapItem)
          finally show ?thesis
            using Some ct True data xs by (simp add: json_items_def)
        qed
      qed
    qed
  qed
qed

text \<open>\<^verbatim>\<open>includes\<close> on strings decides containment, so the adapter's test of the content
  type is: it contains \<^verbatim>\<open>application/json\<close> or \<^verbatim>\<open>text/json\<close>.\<close>

lemma startsWith_iff: "startsWith s p = (\<exists>suf. s = p @ suf)"
  by (induction s p rule: startsWith.induct) auto

lemma str_includes_contains: "str_includes s p = contains s p"
proof (induction s)
  case Nil
  show ?case by (auto simp: contains_def)
next
  case (Cons c cs)
  have "contains (c # cs) p = (startsWith (c # cs) p \<or> contains cs p)"
  proof
    assume "contains (c # cs) p"
    then obtain pre suf where e: "c # cs = pre @ p @ suf" by (auto simp: contains_def)
    show "startsWith (c # cs) p \<or> contains cs p"
    proof (cases pre)
      case Nil
      with e show ?thesis by (auto simp: startsWith_iff)
    next
      case (Cons d pre')
      with e have "cs = pre' @ p @ suf" by simp
      then show ?thesis by (auto simp: contains_def)
    qed
  next
    assume "startsWith (c # cs) p \<or> contains cs p"
    then show "contains (c # cs) p"
    proof
      assume "startsWith (c # cs) p"
      then obtain suf where "c # cs = [] @ p @ suf" by (auto simp: startsWith_iff)
      then show ?thesis unfolding contains_def by blast
    next
      assume "contains cs p"
      then obtain pre suf where "cs = pre @ p @ suf" by (auto simp: contains_def)
      then have "c # cs = (c # pre) @ p @ suf" by simp
      then show ?thesis unfolding contains_def by blast
    qed
  qed
  with Cons show ?case by simp
qed

lemma contains_longer: "contains s (a @ p) \<Longrightarrow> contains s p"
proof -
  assume "contains s (a @ p)"
  then obtain pre suf where "s = pre @ (a @ p) @ suf" by (auto simp: contains_def)
  then have "s = (pre @ a) @ p @ suf" by simp
  then show ?thesis unfolding contains_def by blast
qed

lemma is_json_type_contains:
  "is_json_type ct = (contains ct ''application/json'' \<or> contains ct ''text/json'')"
  by (simp add: is_json_type_def str_includes_contains)

lemma is_json_type_json: "is_json_type ct \<Longrightarrow> contains ct ''json''"
  using contains_longer [of ct "''application/''" "''json''"]
    contains_longer [of ct "''text/''" "''json''"]
  by (auto simp: is_json_type_contains)

lemma json_items_iff:
  "(json_items env src = Some xs)
   = (\<exists>ct. declared_type env src = Some ct \<and> is_json_type ct \<and> body_items env src = Some xs)"
  by (auto simp: json_items_def declared_type_def body_items_def split: option.splits)

text \<open>
  The media type registered for JSON Feed, \<^verbatim>\<open>application/feed+json\<close> (the type under which
  the program serves its own \<^verbatim>\<open>/feed.json\<close>), contains neither of the two substrings. A
  JSON Feed served under it is not read as JSON; it goes to the RSS parser, which raises
  on it, and the source contributes nothing.
\<close>

lemma feed_json_not_recognised: "\<not> is_json_type ''application/feed+json''"
  by code_simp

lemma feed_json_dropped:
  "declared_type env_fj ''feed'' = Some ''application/feed+json''
   \<and> (\<exists>xs. body_items env_fj ''feed'' = Some xs \<and> length xs = 1 \<and> Null \<notin> set xs)
   \<and> tryParseJSONFeed env_fj ''feed'' = None
   \<and> source_items env_fj ''feed'' = []"
proof -
  have "tryParseJSONFeed env_fj ''feed'' = None" by code_simp
  moreover have "source_items env_fj ''feed'' = []" by code_simp
  moreover have "declared_type env_fj ''feed'' = Some ''application/feed+json''"
    by (simp add: declared_type_def env_fj_def)
  moreover have "\<exists>xs. body_items env_fj ''feed'' = Some xs \<and> length xs = 1 \<and> Null \<notin> set xs"
    by (simp add: body_items_def env_fj_def items_of_def)
  ultimately show ?thesis by blast
qed

subsection \<open>String-typed sources give string-typed raw items\<close>

lemma stringish_Undefined: "stringish Undefined"
  by (simp add: stringish_def)

lemma mapItem_fields:
  assumes "mapItem env u it = Inr ob"
  shows "field ob ''link'' = js_or (js_or (getv it ''url'') (getv it ''external_url'')) (Str [])"
    "field ob ''isoDate''
       = js_or (js_or (getv it ''date_published'') (getv it ''date_modified''))
           (Str (toISOString env (now env)))"
    "field ob ''content''
       = js_or (js_or (getv it ''content_html'') (getv it ''content_text'')) (Str [])"
    "field ob ''pubDate'' = Undefined" "field ob ''guid'' = Undefined"
    "field ob ''contentEncoded'' = Undefined" "field ob ''content:encoded'' = Undefined"
    "getv (field ob ''enclosure'') ''type''
       = (if truthy (js_and (getv it ''attachments'') (index0 (getv it ''attachments'')))
          then js_or (getv (index0 (getv it ''attachments'')) ''mime_type'') (Str [])
          else Undefined)"
  using assms by (auto simp: mapItem_def Let_def split: if_splits)

lemma mapItem_string_typed:
  assumes "mapItem env u it = Inr ob" "json_typed it"
  shows "string_typed (set_source src ob)"
proof -
  have f: "field (set_source src ob) k = field ob k" if "k \<noteq> ''_source''" for k
    using that by (simp add: set_source_def)
  note m = mapItem_fields [OF assms(1)]
  from assms(2) show ?thesis
    unfolding string_typed_def json_typed_def
    by (simp add: f m stringish_js_or stringish_Str stringish_Undefined)
qed

lemma string_typed_set_source: "string_typed it \<Longrightarrow> string_typed (set_source src it)"
  by (simp add: string_typed_def set_source_def)

lemma tryParseJSONFeed_items:
  assumes "tryParseJSONFeed env src = Some jf"
  shows "\<exists>xs. json_items env src = Some xs
              \<and> map_items (mapItem env src) xs = Inr (feed_items jf)"
proof -
  from assms obtain res ct data xs its where
    r: "fetch env src = Some res" "content_type res = Some ct" "is_json_type ct"
      "json res = Some data" "truthy data" "getv data ''items'' = Arr xs"
      "map_items (mapItem env src) xs = Inr its" "feed_items jf = its"
    by (auto simp: tryParseJSONFeed_def Let_def is_json_type_def
        split: option.splits if_splits jsval.splits sum.splits)
  from r(5,6) have "items_of data = Some xs"
    using getv_items_Arr [of data xs] by simp
  with r show ?thesis by (simp add: json_items_def)
qed

lemma source_items_typed:
  assumes j: "\<forall>xs. json_items env src = Some xs \<longrightarrow> (\<forall>x\<in>set xs. json_typed x)"
    and r: "\<forall>its. parseURL env src = Some its \<longrightarrow> (\<forall>it\<in>set its. string_typed it)"
  shows "\<forall>it\<in>set (source_items env src). string_typed it"
proof (cases "tryParseJSONFeed env src")
  case None
  show ?thesis
  proof (cases "parseURL env src")
    case np: None
    with None show ?thesis by (simp add: source_items_def)
  next
    case (Some its)
    with r have "\<forall>it\<in>set its. string_typed it" by blast
    with None Some show ?thesis
      by (auto simp: source_items_def intro: string_typed_set_source)
  qed
next
  case (Some jf)
  from tryParseJSONFeed_items [OF Some] obtain xs where
    xs: "json_items env src = Some xs" "map_items (mapItem env src) xs = Inr (feed_items jf)"
    by blast
  from xs(2) have rel: "list_all2 (\<lambda>x ob. mapItem env src x = Inr ob) xs (feed_items jf)"
    by (simp add: map_items_list_all2)
  have "string_typed (set_source src ob)" if "ob \<in> set (feed_items jf)" for ob
  proof -
    from that obtain i where i: "i < length (feed_items jf)" "feed_items jf ! i = ob"
      by (auto simp: in_set_conv_nth)
    from list_all2_nthD2 [OF rel i(1)] i(2) have m: "mapItem env src (xs ! i) = Inr ob"
      by simp
    from rel i(1) have "xs ! i \<in> set xs"
      by (simp add: list_all2_lengthD)
    with m obtain x where "x \<in> set xs" "mapItem env src x = Inr ob" by blast
    with j xs(1) show ?thesis by (auto intro: mapItem_string_typed)
  qed
  with Some show ?thesis by (auto simp: source_items_def)
qed

text \<open>When every source answers with string-typed elements, on either path, every
  collected raw item is string-typed.\<close>

lemma collect_typed:
  assumes "\<forall>src\<in>set srcs.
      (\<forall>xs. json_items env src = Some xs \<longrightarrow> (\<forall>x\<in>set xs. json_typed x))
      \<and> (\<forall>its. parseURL env src = Some its \<longrightarrow> (\<forall>it\<in>set its. string_typed it))"
  shows "\<forall>it\<in>set (collect env srcs). string_typed it"
  using assms
proof (induction srcs)
  case Nil
  show ?case by simp
next
  case (Cons s srcs)
  then have "\<forall>it\<in>set (source_items env s). string_typed it"
    by (intro source_items_typed) auto
  with Cons show ?case by auto
qed

subsection \<open>The renderer\<close>

lemma feed_entry_wf:
  assumes "wf_item it"
  shows "\<exists>e. feed_entry env it = Inr e \<and> e_id e = link it \<and> e_link e = link it
            \<and> e_title e = title it \<and> e_date e = date it
            \<and> (no_media it \<longrightarrow> e_enclosure e = None \<and> e_content e = plain_content it)"
proof -
  from assms have "is_str (description it)" "is_str (source it)"
    by (simp_all add: wf_item_def)
  then obtain d s where d: "description it = Str d" and s: "source it = Str s"
    using is_strE by blast
  from assms have "imageUrl it = Null \<or> is_str (imageUrl it)"
    by (simp add: wf_item_def)
  then have "imageUrl it = Null \<or> (\<exists>u. imageUrl it = Str u)"
    using is_strE by blast
  then have "\<exists>a. image_block env it = Inr a \<and> (imageUrl it = Null \<longrightarrow> a = [])"
    by (auto simp: image_block_def to_str_def)
  then obtain a where a: "image_block env it = Inr a" "imageUrl it = Null \<longrightarrow> a = []"
    by (elim exE conjE)
  have "\<exists>b. video_block env it = Inr b \<and> (video it = None \<longrightarrow> b = [])"
  proof (cases "video it")
    case None
    then show ?thesis by (simp add: video_block_def)
  next
    case (Some v)
    with assms have "is_str (url v)" "is_str (mtype v)"
      by (simp_all add: wf_item_def)
    then obtain u t where "url v = Str u" "mtype v = Str t"
      using is_strE by blast
    with Some show ?thesis
      by (simp add: video_block_def call_startsWith_def to_str_def)
  qed
  then obtain b where b: "video_block env it = Inr b" "video it = None \<longrightarrow> b = []"
    by (elim exE conjE)
  let ?blocks = "a @ b @ (if d = [] then [] else [d]) @ [''<p><small>Source: '' @ s @ ''</small></p>'']"
  have c: "description_block env it = Inr (if d = [] then [] else [d])"
    by (simp add: description_block_def d to_str_def)
  have sb: "source_block env it = Inr [''<p><small>Source: '' @ s @ ''</small></p>'']"
    by (simp add: source_block_def s to_str_def)
  have blocks: "contentBlocks env it = Inr ?blocks"
    by (simp add: contentBlocks_def a(1) b(1) c sb)
  have sm: "summary (description it) = Inr (Str (take 280 (strip_tags d)))"
    by (simp add: summary_def d)
  have plain: "no_media it \<Longrightarrow> join_lines ?blocks = plain_content it"
    using a(2) b(2) by (simp add: no_media_def plain_content_def d s)
  have enc: "no_media it \<Longrightarrow> primary_enclosure it = None"
    by (simp add: no_media_def primary_enclosure_def)
  let ?e = "\<lparr>e_id = link it, e_title = title it, e_link = link it, e_date = date it,
             e_description = Str (take 280 (strip_tags d)),
             e_content = join_lines ?blocks,
             e_author = (if truthy (authorName it) then Some (authorName it) else None),
             e_enclosure = primary_enclosure it\<rparr>"
  have "feed_entry env it = Inr ?e"
    unfolding feed_entry_def blocks sm by simp
  moreover have "no_media it \<longrightarrow> e_enclosure ?e = None \<and> e_content ?e = plain_content it"
    using plain enc by simp
  moreover have "e_id ?e = link it \<and> e_link ?e = link it \<and> e_title ?e = title it
      \<and> e_date ?e = date it"
    by simp
  ultimately show ?thesis by blast
qed

lemma build_feed_wf:
  assumes "wf_cache c"
  shows "\<exists>f. build_feed env c = Inr f \<and> updated f = lastBuild c
            \<and> list_all2 (\<lambda>it e. feed_entry env it = Inr e) (items c) (entries f)"
proof -
  from assms have "\<forall>it\<in>set (items c). \<exists>e. feed_entry env it = Inr e \<and> True"
    using feed_entry_wf [of _ env] by (fastforce simp: wf_cache_def list_all_iff)
  from map_items_total [OF this]
  have "\<exists>es. map_items (feed_entry env) (items c) = Inr es" by blast
  then obtain es where es: "map_items (feed_entry env) (items c) = Inr es" by blast
  then have "list_all2 (\<lambda>it e. feed_entry env it = Inr e) (items c) es"
    by (simp add: map_items_list_all2)
  with es show ?thesis by (simp add: build_feed_def)
qed

text \<open>On a well-formed cache the loop of \<^verbatim>\<open>buildFeeds\<close> raises nothing and adds one
  entry per cache item, in the order of the cache, each with the id, title, link and
  date of its item; an item with no media gets no primary enclosure and a content body of
  its description and attribution only.\<close>

lemma build_feed_total:
  assumes "wf_cache c"
  shows "\<exists>f. build_feed env c = Inr f
          \<and> updated f = lastBuild c
          \<and> map e_id (entries f) = map link (items c)
          \<and> map e_title (entries f) = map title (items c)
          \<and> map e_date (entries f) = map date (items c)
          \<and> (\<forall>i<length (items c). no_media (items c ! i) \<longrightarrow>
                e_enclosure (entries f ! i) = None
                \<and> e_content (entries f ! i) = plain_content (items c ! i))"
proof -
  from build_feed_wf [OF assms, of env] obtain f where
    f: "build_feed env c = Inr f" "updated f = lastBuild c"
    and rel: "list_all2 (\<lambda>it e. feed_entry env it = Inr e) (items c) (entries f)"
    by blast
  from assms have wf: "\<forall>it\<in>set (items c). wf_item it"
    by (simp add: wf_cache_def list_all_iff)
  have len: "length (entries f) = length (items c)"
    using rel by (simp add: list_all2_lengthD)
  have at: "feed_entry env (items c ! i) = Inr (entries f ! i)" if "i < length (items c)" for i
    using list_all2_nthD [OF rel that] .
  have each: "e_id (entries f ! i) = link (items c ! i)
      \<and> e_title (entries f ! i) = title (items c ! i)
      \<and> e_date (entries f ! i) = date (items c ! i)
      \<and> (no_media (items c ! i) \<longrightarrow> e_enclosure (entries f ! i) = None
            \<and> e_content (entries f ! i) = plain_content (items c ! i))"
    if "i < length (items c)" for i
  proof -
    from that wf have "wf_item (items c ! i)" by simp
    from feed_entry_wf [OF this, of env] at [OF that] show ?thesis by auto
  qed
  have m1: "map e_id (entries f) = map link (items c)"
    by (rule nth_equalityI) (simp_all add: len each)
  have m2: "map e_title (entries f) = map title (items c)"
    by (rule nth_equalityI) (simp_all add: len each)
  have m3: "map e_date (entries f) = map date (items c)"
    by (rule nth_equalityI) (simp_all add: len each)
  have m4: "\<forall>i<length (items c). no_media (items c ! i) \<longrightarrow>
                e_enclosure (entries f ! i) = None
                \<and> e_content (entries f ! i) = plain_content (items c ! i)"
    using each by blast
  from f m1 m2 m3 m4 show ?thesis by blast
qed

text \<open>What \<^verbatim>\<open>buildFeeds\<close> returns once the loop has built the feed is up to the three
  serialisers: the first that raises makes \<^verbatim>\<open>buildFeeds\<close> raise.\<close>

lemma buildFeeds_serialisers:
  assumes "build_feed env c = Inr f"
  shows "buildFeeds lib env c
    = (case rss2 lib f of
         Inl e \<Rightarrow> Inl e
       | Inr r \<Rightarrow>
           (case atom1 lib f of
              Inl e \<Rightarrow> Inl e
            | Inr a \<Rightarrow>
                (case json1 lib f of
                   Inl e \<Rightarrow> Inl e
                 | Inr j \<Rightarrow> Inr \<lparr>rss = r, atom = a, json_doc = j\<rparr>)))"
  using assms by (simp add: buildFeeds_def)

section \<open>The claims\<close>

subsection \<open>C1: the links in the cache\<close>

text \<open>
  C1. Cache link invariant: after any refresh, every item in the cache has a non-empty
  link, and no two items in the cache have the same link; the links are pairwise
  different even once trimmed of surrounding white space. The statement is about every
  refresh that installs a cache, over any source list (a refresh that raises assigns
  nothing to \<^verbatim>\<open>CACHE\<close>).
\<close>

theorem cache_links_unique:
  assumes "refresh_from env srcs = Inr c"
  shows "(\<forall>it\<in>set (items c). \<exists>s. link it = Str s \<and> s \<noteq> [])
         \<and> distinct (map link_key (items c)) \<and> distinct (map link (items c))"
proof -
  from assms obtain normalized deduped where
    d: "dedupe {} (filter (\<lambda>it. truthy (link it)) normalized) = Inr deduped"
    and c: "items c = js_sort deduped"
    by (rule refresh_from_items)
  from dedupe_props [OF d] have
    p: "\<forall>y\<in>set deduped. (\<exists>s. link y = Str s) \<and> link_key y \<noteq> []"
    and dk: "distinct (map link_key deduped)" by auto
  have a: "\<forall>it\<in>set (items c). \<exists>s. link it = Str s \<and> s \<noteq> []"
  proof
    fix it assume "it \<in> set (items c)"
    then have "it \<in> set deduped" by (simp add: c set_js_sort)
    with p obtain s where "link it = Str s" "link_key it \<noteq> []" by blast
    then show "\<exists>s. link it = Str s \<and> s \<noteq> []"
      using trim_nonempty by (auto simp: link_key_def)
  qed
  have dk': "distinct (map link_key (items c))"
    by (simp add: c distinct_map_js_sort dk)
  have "link_key = (\<lambda>v. case v of Str s \<Rightarrow> trim s | _ \<Rightarrow> []) \<circ> link"
    by (auto simp: link_key_def fun_eq_iff)
  then have "map link_key (items c)
      = map (\<lambda>v. case v of Str s \<Rightarrow> trim s | _ \<Rightarrow> []) (map link (items c))"
    by simp
  with dk' have "distinct (map link (items c))"
    by (metis distinct_map)
  with a dk' show ?thesis by blast
qed

text \<open>The scenario of the specification: the cache holds \<^verbatim>\<open>a\<close> and \<^verbatim>\<open>b\<close>.\<close>

theorem cache_links_unique_witness:
  "refresh_from env0 [''rss'', ''json''] = Inr cache0
   \<and> map link (items cache0) = [Str ''a'', Str ''b'']
   \<and> distinct (map link_key (items cache0)) \<and> distinct (map link (items cache0))"
proof -
  from cache_links_unique [OF refresh0]
  have "distinct (map link_key (items cache0)) \<and> distinct (map link (items cache0))" by blast
  moreover have "map link (items cache0) = [Str ''a'', Str ''b'']"
    by (simp add: cache0_def)
  ultimately show ?thesis using refresh0 by blast
qed

subsection \<open>C2: the order of the cache\<close>

text \<open>
  C2, as stated: after any refresh the cache is sorted by date descending, whatever date
  strings the sources supplied. It fails: a date string that does not parse gives an
  invalid date, every comparison with it is false, and the comparator of the sort returns
  \<^verbatim>\<open>NaN\<close> for it. In the example the refresh installs the items in the order old, invalid,
  new: no adjacent pair is in order, and the two valid dates are ascending. Whatever order
  an engine gives these items, they are not in date order (\<open>invalid_date_breaks_order\<close>).
\<close>

theorem sorted_counterexample:
  "refresh_from env1 [''rss''] = Inr cache1 \<and> \<not> date_desc (items cache1)
   \<and> map date (items cache1) = [Some 1701388800000, None, Some 1704153600000]"
proof -
  have "refresh_from env1 [''rss''] = Inr cache1" by code_simp
  moreover have "\<not> date_desc (items cache1)"
    by (simp add: cache1_def date_ge_def)
  moreover have "map date (items cache1) = [Some 1701388800000, None, Some 1704153600000]"
    by (simp add: cache1_def)
  ultimately show ?thesis by blast
qed

text \<open>
  C2, amended: after any refresh whose cached items all have a valid date, the cache is
  sorted by date descending: for every pair of adjacent items \<open>a\<close>, \<open>b\<close>,
  \<^verbatim>\<open>a.date >= b.date\<close>.
\<close>

theorem cache_sorted_when_dates_valid:
  assumes "refresh_from env srcs = Inr c" and "\<forall>it\<in>set (items c). date it \<noteq> None"
  shows "date_desc (items c)"
proof -
  from assms(1) obtain deduped where c: "items c = js_sort deduped"
    by (rule refresh_from_items)
  with assms(2) have "\<forall>y\<in>set deduped. date y \<noteq> None"
    by (simp add: set_js_sort)
  then show ?thesis
    unfolding c by (intro sorted_wrt_date_desc sorted_js_sort)
qed

theorem cache_sorted_witness:
  "refresh_from env0 [''rss'', ''json''] = Inr cache0 \<and> date_desc (items cache0)"
proof -
  have "\<forall>it\<in>set (items cache0). date it \<noteq> None"
    by (simp add: cache0_def)
  from cache_sorted_when_dates_valid [OF refresh0 this] refresh0 show ?thesis by blast
qed

subsection \<open>C3: first seen wins\<close>

text \<open>
  C3, as stated: the first item bearing a given trimmed link key is kept and every later
  item with that key is dropped. It fails for the empty key: an item whose link is white
  space only passes the filter and is dropped by the guard \<^verbatim>\<open>!key\<close>, though no earlier
  item bears its key.
\<close>

theorem first_seen_counterexample:
  "dedupe {} [blank_item] = Inr [] \<and> claimed_first_seen [blank_item] = [blank_item]
   \<and> dedupe {} [blank_item] \<noteq> Inr (claimed_first_seen [blank_item])"
  by (simp add: blank_item_def claimed_first_seen_def link_key_def call_trim_def trim_def
      is_space_def)

text \<open>
  C3, amended: iterating the normalized items in source-then-fetch order, an item is kept
  exactly when its trimmed link key is not empty and no earlier item bears the same key;
  every other item is dropped, whatever its source and its content, and the kept items
  are the original ones in their original order (nothing is merged). Whenever the loop
  returns, it returns this selection, and it returns whenever every link is a string.
\<close>

theorem dedupe_first_seen:
  "(dedupe {} xs = Inr ys \<longrightarrow> ys = first_seen xs)
   \<and> ((\<forall>x\<in>set xs. is_str (link x)) \<longrightarrow> dedupe {} xs = Inr (first_seen xs))"
  using dedupe_strings [of xs] dedupe_Inr_strings [of "{}" xs ys] by auto

text \<open>The second \<^verbatim>\<open>a\<close> comes from another source with another date and content, and
  its link differs by white space only: it is dropped.\<close>

theorem dedupe_first_seen_witness:
  "dedupe {} [item_a_rss, item_a_json, item_b_json] = Inr [item_a_rss, item_b_json]
   \<and> first_seen [item_a_rss, item_a_json, item_b_json] = [item_a_rss, item_b_json]"
proof -
  have s: "\<forall>x\<in>set [item_a_rss, item_a_json, item_b_json]. is_str (link x)"
    by (simp add: item_a_rss_def item_a_json_def item_b_json_def is_str_def)
  have f: "first_seen [item_a_rss, item_a_json, item_b_json] = [item_a_rss, item_b_json]"
    by code_simp
  from dedupe_first_seen [of "[item_a_rss, item_a_json, item_b_json]"] s
  have d: "dedupe {} [item_a_rss, item_a_json, item_b_json]
      = Inr (first_seen [item_a_rss, item_a_json, item_b_json])" by blast
  show ?thesis by (rule conjI [OF d [unfolded f] f])
qed

subsection \<open>C4: failures during a refresh\<close>

text \<open>
  C4, as stated: for any combination of per-source outcomes, refresh never raises. It
  fails: the exception handlers enclose the fetch and the parse of each source, not the
  normalization of what was collected. With the configured sources, when the JSON source
  answers with an item whose \<^verbatim>\<open>url\<close> is the number 5, \<^verbatim>\<open>pickVideo\<close> calls \<^verbatim>\<open>includes\<close> on
  the number and the refresh ends with a \<^verbatim>\<open>TypeError\<close>.
\<close>

theorem refresh_raises_counterexample: "refresh env_bad = Inl TypeError"
  by code_simp

text \<open>
  C4, amended: a source whose fetch or parse fails contributes zero items to the cycle
  without aborting the other sources (the refresh is the refresh over the sources that
  did not fail); when every source fails, refresh installs a cache with zero items and
  the current time as \<^verbatim>\<open>lastBuild\<close>; and refresh does not raise, and installs a cache with
  the current time, whenever every collected raw item is string-typed (as it is when
  every source answers with string-typed elements: \<open>collect_typed\<close>).
\<close>

theorem refresh_failure_semantics:
  "refresh_from env srcs = refresh_from env (filter (\<lambda>s. \<not> source_fails env s) srcs)
   \<and> ((\<forall>s\<in>set srcs. source_fails env s) \<longrightarrow>
        refresh_from env srcs = Inr \<lparr>items = [], lastBuild = now env\<rparr>)
   \<and> ((\<forall>it\<in>set (collect env srcs). string_typed it) \<longrightarrow>
        (\<exists>c. refresh_from env srcs = Inr c \<and> lastBuild c = now env))"
proof (intro conjI impI)
  show "refresh_from env srcs = refresh_from env (filter (\<lambda>s. \<not> source_fails env s) srcs)"
    using collect_filter [of env srcs] by (simp add: refresh_from_def)
next
  assume "\<forall>s\<in>set srcs. source_fails env s"
  then have "collect env srcs = []" by (rule collect_all_fail)
  then show "refresh_from env srcs = Inr \<lparr>items = [], lastBuild = now env\<rparr>"
    by (simp add: refresh_from_def js_sort_def)
next
  assume typed: "\<forall>it\<in>set (collect env srcs). string_typed it"
  have "\<forall>x\<in>set (collect env srcs). \<exists>n. normalize env x = Inr n \<and> stringish (link n)"
    using typed normalize_total by blast
  from map_items_total [OF this] obtain ns where
    ns: "map_items (normalize env) (collect env srcs) = Inr ns" "\<forall>n\<in>set ns. stringish (link n)"
    by blast
  have "\<forall>x\<in>set (filter (\<lambda>it. truthy (link it)) ns). is_str (link x)"
    using ns(2) stringish_truthy by (fastforce simp: is_str_def)
  from dedupe_strings [OF this] ns(1)
  show "\<exists>c. refresh_from env srcs = Inr c \<and> lastBuild c = now env"
    by (simp add: refresh_from_def)
qed

text \<open>The scenario with a third source that is down, and a cycle in which every source
  is down.\<close>

theorem refresh_failure_semantics_witness:
  "refresh_from env0 [''rss'', ''down'', ''json''] = Inr cache0
   \<and> lastBuild cache0 = now env0
   \<and> refresh_from env0 [''down'', ''gone''] = Inr \<lparr>items = [], lastBuild = 1700000000000\<rparr>"
proof -
  have f: "filter (\<lambda>s. \<not> source_fails env0 s) [''rss'', ''down'', ''json''] = [''rss'', ''json'']"
    by code_simp
  have g: "\<forall>s\<in>set [''down'', ''gone'']. source_fails env0 s"
    by (simp add: source_fails_def tryParseJSONFeed_def env0_def)
  have n: "now env0 = 1700000000000" by (simp add: env0_def)
  have "list_all string_typed (collect env0 [''rss'', ''down'', ''json''])" by code_simp
  then have t: "\<forall>it\<in>set (collect env0 [''rss'', ''down'', ''json'']). string_typed it"
    by (simp only: list_all_iff)
  have "refresh_from env0 [''rss'', ''down'', ''json'']
      = refresh_from env0 (filter (\<lambda>s. \<not> source_fails env0 s) [''rss'', ''down'', ''json''])"
    using refresh_failure_semantics [of env0 "[''rss'', ''down'', ''json'']"] by (rule conjunct1)
  then have a: "refresh_from env0 [''rss'', ''down'', ''json''] = Inr cache0"
    unfolding f refresh0 .
  have "\<exists>c. refresh_from env0 [''rss'', ''down'', ''json''] = Inr c \<and> lastBuild c = now env0"
    using refresh_failure_semantics [of env0 "[''rss'', ''down'', ''json'']"] t by blast
  with a have b: "lastBuild cache0 = now env0" by auto
  have "(\<forall>s\<in>set [''down'', ''gone'']. source_fails env0 s) \<longrightarrow>
      refresh_from env0 [''down'', ''gone''] = Inr \<lparr>items = [], lastBuild = now env0\<rparr>"
    using refresh_failure_semantics [of env0 "[''down'', ''gone'']"] by blast
  with g have "refresh_from env0 [''down'', ''gone''] = Inr \<lparr>items = [], lastBuild = now env0\<rparr>"
    by blast
  with a b show ?thesis unfolding n by blast
qed

subsection \<open>C5: the date of a normalized item\<close>

text \<open>
  C5, as stated: whenever no date-like field parses to a valid date the current time is
  substituted, so normalization never yields an invalid date. It fails: the current time
  stands in only for fields that are missing or empty. A raw item whose \<^verbatim>\<open>pubDate\<close> is
  the string \<^verbatim>\<open>yesterday\<close> is normalized to an item with an invalid date.
\<close>

theorem invalid_date_counterexample:
  "normalize env0 raw_undated = Inr item_undated \<and> date item_undated = None"
proof -
  have "normalize env0 raw_undated = Inr item_undated" by code_simp
  moreover have "date item_undated = None" by (simp add: item_undated_def)
  ultimately show ?thesis by blast
qed

text \<open>
  C5, amended: for every raw item that normalizes, when \<^verbatim>\<open>isoDate\<close> and \<^verbatim>\<open>pubDate\<close> are both
  missing or empty the date is the current time (a valid date, the clock being in the
  range of \<^verbatim>\<open>Date\<close>); when the first of the two that is present is a string, the date is
  the engine's parse of that string, valid or not: nothing is substituted for a string
  that does not parse.
\<close>

theorem normalize_date:
  assumes "normalize env it = Inr n"
  shows "(\<not> truthy (field it ''isoDate'') \<and> \<not> truthy (field it ''pubDate'')
            \<and> \<bar>now env\<bar> \<le> 8640000000000000 \<longrightarrow> date n = Some (now env))
         \<and> (\<forall>s. s \<noteq> [] \<and> js_or (field it ''isoDate'') (field it ''pubDate'') = Str s
               \<longrightarrow> date n = parse_date env s)"
proof -
  from assms have d: "item_date env it = Inr (date n)"
    by (auto simp: normalize_def split: sum.splits)
  show ?thesis
  proof (intro conjI impI allI)
    assume "\<not> truthy (field it ''isoDate'') \<and> \<not> truthy (field it ''pubDate'')
            \<and> \<bar>now env\<bar> \<le> 8640000000000000"
    with d show "date n = Some (now env)"
      by (simp add: item_date_def js_or_def new_date_def time_clip_int)
  next
    fix s assume "s \<noteq> [] \<and> js_or (field it ''isoDate'') (field it ''pubDate'') = Str s"
    with d show "date n = parse_date env s"
      by (simp add: item_date_def js_or_def [of "Str s"] new_date_def)
  qed
qed

text \<open>A raw item with no date gets the clock's instant, and one with a date that
  parses gets that date.\<close>

theorem normalize_date_witness:
  "normalize env0 raw_nodate = Inr item_now
   \<and> date item_now = Some (now env0)
   \<and> (\<exists>n. normalize env0 raw_dated = Inr n \<and> date n = Some 1704067200000)"
proof -
  have a: "normalize env0 raw_nodate = Inr item_now" by code_simp
  have h: "\<not> truthy (field raw_nodate ''isoDate'') \<and> \<not> truthy (field raw_nodate ''pubDate'')
      \<and> \<bar>now env0\<bar> \<le> 8640000000000000"
    by (simp add: env0_def raw_nodate_def)
  from normalize_date [OF a] h have b: "date item_now = Some (now env0)" by blast
  obtain n where n: "normalize env0 raw_dated = Inr n"
    using normalize_total [of raw_dated env0]
    by (auto simp: raw_dated_def string_typed_def stringish_def)
  have "js_or (field raw_dated ''isoDate'') (field raw_dated ''pubDate'') = Str ''2024-01-01''"
    by (simp add: raw_dated_def js_or_def)
  with normalize_date [OF n] have "date n = parse_date env0 ''2024-01-01''" by blast
  then have "date n = Some 1704067200000" by (simp add: env0_def example_parse_date_def)
  with n a b show ?thesis by blast
qed

subsection \<open>C6: the JSON branch and the XML branch\<close>

text \<open>
  C6, as stated: the JSON-Feed interpretation is applied exactly when the declared
  content type indicates JSON and the parsed body has a top-level \<^verbatim>\<open>items\<close> array. It
  fails: when the array holds \<^verbatim>\<open>null\<close>, the map over it raises on the first property
  read, the handler of \<^verbatim>\<open>tryParseJSONFeed\<close> returns \<^verbatim>\<open>null\<close>, and the source goes to the
  XML path although both conditions hold.
\<close>

theorem json_branch_counterexample:
  "declared_type env_null ''json'' = Some ''application/json''
   \<and> body_items env_null ''json'' = Some [Null]
   \<and> tryParseJSONFeed env_null ''json'' = None"
  by (simp add: declared_type_def body_items_def tryParseJSONFeed_def env_null_def env0_def
      is_json_type_def items_of_def mapItem_def)

text \<open>
  C6, amended: when the declared content type contains \<^verbatim>\<open>application/json\<close> or
  \<^verbatim>\<open>text/json\<close>, the JSON-Feed interpretation is applied exactly when the parsed body has
  a top-level \<^verbatim>\<open>items\<close> array and no element of that array is \<^verbatim>\<open>null\<close> (or \<^verbatim>\<open>undefined\<close>);
  it is never applied to a response whose declared content type does not mention
  \<^verbatim>\<open>json\<close>, or whose body has no such array; whenever it is not applied, the source is
  read through the RSS/Atom path instead of being treated as empty, and when it is, the
  items of the source are the mapped elements of the array. The statement says nothing
  of the other content types that mention \<^verbatim>\<open>json\<close>.
\<close>

theorem json_branch_selection:
  "(\<forall>ct. declared_type env src = Some ct
          \<and> (contains ct ''application/json'' \<or> contains ct ''text/json'') \<longrightarrow>
        (tryParseJSONFeed env src \<noteq> None)
          = (\<exists>xs. body_items env src = Some xs \<and> Null \<notin> set xs \<and> Undefined \<notin> set xs))
   \<and> (tryParseJSONFeed env src \<noteq> None \<longrightarrow>
        (\<exists>ct xs. declared_type env src = Some ct \<and> contains ct ''json''
           \<and> body_items env src = Some xs \<and> Null \<notin> set xs \<and> Undefined \<notin> set xs))
   \<and> (tryParseJSONFeed env src = None \<longrightarrow> source_items env src = rss_items env src)
   \<and> (\<forall>jf. tryParseJSONFeed env src = Some jf \<longrightarrow>
          source_items env src = map (set_source src) (feed_items jf))"
proof (intro conjI allI impI)
  fix ct
  assume "declared_type env src = Some ct
          \<and> (contains ct ''application/json'' \<or> contains ct ''text/json'')"
  then have "declared_type env src = Some ct" "is_json_type ct"
    by (simp_all add: is_json_type_contains)
  then have "json_items env src = body_items env src"
    by (cases "body_items env src")
      (auto simp: json_items_def declared_type_def body_items_def split: option.splits)
  then show "(tryParseJSONFeed env src \<noteq> None)
          = (\<exists>xs. body_items env src = Some xs \<and> Null \<notin> set xs \<and> Undefined \<notin> set xs)"
    using tryParseJSONFeed_Some [of env src] by simp
next
  assume "tryParseJSONFeed env src \<noteq> None"
  then obtain xs where "json_items env src = Some xs" "Null \<notin> set xs" "Undefined \<notin> set xs"
    using tryParseJSONFeed_Some [of env src] by blast
  then show "\<exists>ct xs. declared_type env src = Some ct \<and> contains ct ''json''
           \<and> body_items env src = Some xs \<and> Null \<notin> set xs \<and> Undefined \<notin> set xs"
    using is_json_type_json by (auto simp: json_items_iff)
next
  assume "tryParseJSONFeed env src = None"
  then show "source_items env src = rss_items env src"
    by (simp add: source_items_def rss_items_def)
next
  fix jf assume "tryParseJSONFeed env src = Some jf"
  then show "source_items env src = map (set_source src) (feed_items jf)"
    by (simp add: source_items_def)
qed

text \<open>The JSON source of the scenario is read as JSON; the RSS source, whose fetch
  gives no JSON, is read by the RSS parser.\<close>

theorem json_branch_selection_witness:
  "declared_type env0 ''json'' = Some ''application/json; charset=utf-8''
   \<and> tryParseJSONFeed env0 ''json'' \<noteq> None
   \<and> tryParseJSONFeed env0 ''rss'' = None
   \<and> source_items env0 ''rss'' = rss_items env0 ''rss''
   \<and> length (rss_items env0 ''rss'') = 1"
proof -
  have d: "declared_type env0 ''json'' = Some ''application/json; charset=utf-8''"
    by (simp add: declared_type_def env0_def)
  have "''application/json; charset=utf-8'' = [] @ ''application/json'' @ ''; charset=utf-8''"
    by simp
  then have c: "contains ''application/json; charset=utf-8'' ''application/json''"
    unfolding contains_def by blast
  have j: "\<exists>xs. body_items env0 ''json'' = Some xs \<and> Null \<notin> set xs \<and> Undefined \<notin> set xs"
    by (simp add: body_items_def env0_def items_of_def)
  have r: "tryParseJSONFeed env0 ''rss'' = None"
    by (simp add: tryParseJSONFeed_def env0_def)
  have l: "length (rss_items env0 ''rss'') = 1"
    by (simp add: rss_items_def env0_def)
  from json_branch_selection [of env0 "''json''"] d c j
  have "tryParseJSONFeed env0 ''json'' \<noteq> None" by blast
  moreover from json_branch_selection [of env0 "''rss''"] r
  have "source_items env0 ''rss'' = rss_items env0 ''rss''" by blast
  ultimately show ?thesis using d r l by blast
qed

subsection \<open>C7: the image enclosure comes first\<close>

text \<open>
  C7, as stated: for every raw item with an enclosure whose media type begins with
  \<^verbatim>\<open>image/\<close> and an image tag in its content, \<^verbatim>\<open>pickImage\<close> returns the enclosure URL and
  not the scraped one. It fails when the enclosure has no URL: the guard
  \<^verbatim>\<open>item.enclosure.url\<close> skips it and the URL scraped from the content is returned.
\<close>

theorem pickImage_counterexample:
  "field raw_img_nourl ''enclosure'' = Obj [(''url'', Str []), (''type'', Str ''image/png'')]
   \<and> startsWith ''image/png'' ''image/''
   \<and> match_img img_html = Some ''http://x.example/scraped.png''
   \<and> pickImage raw_img_nourl = Inr (Str ''http://x.example/scraped.png'')"
  by code_simp

text \<open>
  C7, amended: for every raw item that has an enclosure with a non-empty URL whose media
  type begins with \<^verbatim>\<open>image/\<close>, \<^verbatim>\<open>pickImage\<close> returns the enclosure URL, whatever the item's
  content holds; in particular when the content has an image tag, the scraped URL is not
  returned.
\<close>

theorem pickImage_enclosure_first:
  assumes "truthy (field item ''enclosure'')" "truthy (getv (field item ''enclosure'') ''url'')"
    "getv (field item ''enclosure'') ''type'' = Str t" "startsWith t ''image/''"
  shows "pickImage item = Inr (getv (field item ''enclosure'') ''url'')"
  using enclosure_is_holds [OF assms] by (simp add: pickImage_def)

theorem pickImage_enclosure_first_witness:
  "match_img img_html = Some ''http://x.example/scraped.png''
   \<and> pickImage raw_img = Inr (Str ''http://x.example/cover.png'')"
proof -
  have m: "match_img img_html = Some ''http://x.example/scraped.png''" by code_simp
  have "pickImage raw_img = Inr (getv (field raw_img ''enclosure'') ''url'')"
    by (rule pickImage_enclosure_first [where t = "''image/png''"]) (simp_all add: raw_img_def)
  then have "pickImage raw_img = Inr (Str ''http://x.example/cover.png'')"
    by (simp add: raw_img_def)
  with m show ?thesis by blast
qed

subsection \<open>C8: the video enclosure comes first\<close>

text \<open>
  C8, as stated: for every raw item with an enclosure whose media type begins with
  \<^verbatim>\<open>video/\<close> and a watch-page link, \<^verbatim>\<open>pickVideo\<close> returns the enclosure with its declared
  type. It fails when the enclosure has no URL: the guard \<^verbatim>\<open>item.enclosure.url\<close> skips it
  and the watch-page link is returned with the type \<^verbatim>\<open>text/html\<close>.
\<close>

theorem pickVideo_counterexample:
  "field raw_vid_nourl ''enclosure'' = Obj [(''url'', Str []), (''type'', Str ''video/mp4'')]
   \<and> startsWith ''video/mp4'' ''video/''
   \<and> pickVideo env0 raw_vid_nourl
       = Inr (Some \<lparr>url = Str ''https://www.youtube.com/watch?v=abc'', mtype = Str ''text/html''\<rparr>)"
  by code_simp

text \<open>
  C8, amended: for every raw item that has an enclosure with a non-empty URL whose media
  type begins with \<^verbatim>\<open>video/\<close>, \<^verbatim>\<open>pickVideo\<close> returns the enclosure URL with its declared
  media type, whatever the item's link is; in particular a watch-page link is not
  returned with the type \<^verbatim>\<open>text/html\<close>.
\<close>

theorem pickVideo_enclosure_first:
  assumes "truthy (field item ''enclosure'')" "truthy (getv (field item ''enclosure'') ''url'')"
    "getv (field item ''enclosure'') ''type'' = Str t" "startsWith t ''video/''"
  shows "pickVideo env item
    = Inr (Some \<lparr>url = getv (field item ''enclosure'') ''url'', mtype = Str t\<rparr>)"
  using enclosure_is_holds [OF assms] assms(3) by (simp add: pickVideo_def)

theorem pickVideo_enclosure_first_witness:
  "str_includes ''https://www.youtube.com/watch?v=abc'' ''youtube.com/watch''
   \<and> pickVideo env0 raw_vid
       = Inr (Some \<lparr>url = Str ''http://x.example/clip.mp4'', mtype = Str ''video/mp4''\<rparr>)"
proof -
  have m: "str_includes ''https://www.youtube.com/watch?v=abc'' ''youtube.com/watch''"
    by code_simp
  have "pickVideo env0 raw_vid
      = Inr (Some \<lparr>url = getv (field raw_vid ''enclosure'') ''url'', mtype = Str ''video/mp4''\<rparr>)"
    by (rule pickVideo_enclosure_first) (simp_all add: raw_vid_def)
  then have "pickVideo env0 raw_vid
      = Inr (Some \<lparr>url = Str ''http://x.example/clip.mp4'', mtype = Str ''video/mp4''\<rparr>)"
    by (simp add: raw_vid_def)
  with m show ?thesis by blast
qed

subsection \<open>C9: rendering is total\<close>

text \<open>
  C9. Render totality: for every well-formed cache, rendering completes without error
  and produces the three documents, each with every cache item. The loop of
  \<^verbatim>\<open>buildFeeds\<close> does its part: on every well-formed cache it raises nothing and adds one
  entry per item (\<open>build_feed_total\<close>), and \<^verbatim>\<open>buildFeeds\<close> returns what the three
  serialisers of the \<^verbatim>\<open>feed\<close> package return on that feed (\<open>buildFeeds_serialisers\<close>).
  The program does not keep the claim, though. The package is not among the sources; its
  serialisers parse the URL of an entry's enclosure with \<^verbatim>\<open>new URL\<close>, which raises a
  \<^verbatim>\<open>TypeError\<close> on a relative URL, and nothing in \<^verbatim>\<open>buildFeeds\<close> catches it. An image
  scraped from the content of an item can have a relative URL: for the RSS item below the
  refresh installs a well-formed cache, and the loop hands the package one entry whose
  enclosure URL is \<^verbatim>\<open>/images/a.png\<close>; what \<^verbatim>\<open>buildFeeds\<close> returns on this cache is what
  the serialisers do with that entry.
\<close>

theorem relative_image_enclosure:
  "refresh_from env_rel [''https://x.example/rss''] = Inr cache_rel
   \<and> wf_cache cache_rel
   \<and> (\<exists>f. build_feed env_rel cache_rel = Inr f
         \<and> map e_enclosure (entries f)
             = [Some \<lparr>url = Str ''/images/a.png'', mtype = Str ''image/jpeg''\<rparr>]
         \<and> buildFeeds lib env_rel cache_rel
             = (case rss2 lib f of
                  Inl e \<Rightarrow> Inl e
                | Inr r \<Rightarrow>
                    (case atom1 lib f of
                       Inl e \<Rightarrow> Inl e
                     | Inr a \<Rightarrow>
                         (case json1 lib f of
                            Inl e \<Rightarrow> Inl e
                          | Inr j \<Rightarrow> Inr \<lparr>rss = r, atom = a, json_doc = j\<rparr>))))"
proof -
  have r: "refresh_from env_rel [''https://x.example/rss''] = Inr cache_rel" by code_simp
  have w: "wf_cache cache_rel" by code_simp
  have "case build_feed env_rel cache_rel of
          Inl e \<Rightarrow> False
        | Inr f \<Rightarrow> map e_enclosure (entries f)
            = [Some \<lparr>url = Str ''/images/a.png'', mtype = Str ''image/jpeg''\<rparr>]"
    by code_simp
  then obtain f where f: "build_feed env_rel cache_rel = Inr f"
    "map e_enclosure (entries f)
       = [Some \<lparr>url = Str ''/images/a.png'', mtype = Str ''image/jpeg''\<rparr>]"
    by (auto split: sum.splits)
  from f(1) have "buildFeeds lib env_rel cache_rel
             = (case rss2 lib f of
                  Inl e \<Rightarrow> Inl e
                | Inr r \<Rightarrow>
                    (case atom1 lib f of
                       Inl e \<Rightarrow> Inl e
                     | Inr a \<Rightarrow>
                         (case json1 lib f of
                            Inl e \<Rightarrow> Inl e
                          | Inr j \<Rightarrow> Inr \<lparr>rss = r, atom = a, json_doc = j\<rparr>)))"
    by (simp add: buildFeeds_def)
  with f have "\<exists>f. build_feed env_rel cache_rel = Inr f
         \<and> map e_enclosure (entries f)
             = [Some \<lparr>url = Str ''/images/a.png'', mtype = Str ''image/jpeg''\<rparr>]
         \<and> buildFeeds lib env_rel cache_rel
             = (case rss2 lib f of
                  Inl e \<Rightarrow> Inl e
                | Inr r \<Rightarrow>
                    (case atom1 lib f of
                       Inl e \<Rightarrow> Inl e
                     | Inr a \<Rightarrow>
                         (case json1 lib f of
                            Inl e \<Rightarrow> Inl e
                          | Inr j \<Rightarrow> Inr \<lparr>rss = r, atom = a, json_doc = j\<rparr>)))"
    by (intro exI [of _ f] conjI)
  with r w show ?thesis by (intro conjI)
qed

subsection \<open>C10: the media type of a video\<close>

text \<open>
  C10. Whenever \<^verbatim>\<open>pickVideo\<close> returns a video, its media type is a non-empty string that
  begins with \<^verbatim>\<open>video/\<close> or equals \<^verbatim>\<open>text/html\<close>; so the renderer's test
  \<^verbatim>\<open>item.video.type.startsWith("video/")\<close> returns, with the answer that tells a direct
  video file from a watch-page link.
\<close>

theorem pickVideo_type:
  assumes "pickVideo env item = Inr (Some v)"
  shows "\<exists>t. mtype v = Str t \<and> t \<noteq> [] \<and> (startsWith t ''video/'' \<or> t = ''text/html'')
             \<and> call_startsWith (mtype v) ''video/'' = Inr (startsWith t ''video/'')"
proof -
  have ext: "\<exists>t. Str (''video/'' @ e) = Str t \<and> t \<noteq> []
      \<and> (startsWith t ''video/'' \<or> t = ''text/html'')
      \<and> call_startsWith (Str (''video/'' @ e)) ''video/'' = Inr (startsWith t ''video/'')" for e
    using startsWith_append [of "''video/''" e] by (simp add: call_startsWith_def)
  from assms consider (enc) "enclosure_is item ''video/'' = Inr True"
      "v = \<lparr>url = getv (field item ''enclosure'') ''url'',
            mtype = getv (field item ''enclosure'') ''type''\<rparr>"
    | (scan) u e where "v = \<lparr>url = Str u, mtype = Str (''video/'' @ e)\<rparr>"
    | (watch) "v = \<lparr>url = field item ''link'', mtype = Str ''text/html''\<rparr>"
    by (auto simp: pickVideo_def Let_def
        split: sum.splits bool.splits option.splits prod.splits if_splits)
  then show ?thesis
  proof cases
    case enc
    from enclosure_is_True [OF enc(1)] obtain t where
      "getv (field item ''enclosure'') ''type'' = Str t" "startsWith t ''video/''" "t \<noteq> []"
      by auto
    with enc(2) show ?thesis by (simp add: call_startsWith_def)
  next
    case scan
    with ext [of e] show ?thesis by simp
  next
    case watch
    then show ?thesis by (simp add: call_startsWith_def)
  qed
qed

text \<open>A watch-page link gives \<^verbatim>\<open>text/html\<close>; a direct link scanned from the content
  gives \<^verbatim>\<open>video/\<close> and the extension as the text spells it.\<close>

theorem pickVideo_type_witness:
  "pickVideo env0 raw_scan
     = Inr (Some \<lparr>url = Str ''http://x.example/a.WEBM'', mtype = Str ''video/WEBM''\<rparr>)
   \<and> call_startsWith (Str ''video/WEBM'') ''video/'' = Inr True
   \<and> pickVideo env0 raw_vid_nourl
     = Inr (Some \<lparr>url = Str ''https://www.youtube.com/watch?v=abc'', mtype = Str ''text/html''\<rparr>)
   \<and> call_startsWith (Str ''text/html'') ''video/'' = Inr False"
proof -
  have p: "pickVideo env0 raw_scan
     = Inr (Some \<lparr>url = Str ''http://x.example/a.WEBM'', mtype = Str ''video/WEBM''\<rparr>)"
    by code_simp
  have q: "pickVideo env0 raw_vid_nourl
     = Inr (Some \<lparr>url = Str ''https://www.youtube.com/watch?v=abc'', mtype = Str ''text/html''\<rparr>)"
    by code_simp
  from pickVideo_type [OF p]
  have a: "call_startsWith (Str ''video/WEBM'') ''video/'' = Inr True" by auto
  from pickVideo_type [OF q]
  have b: "call_startsWith (Str ''text/html'') ''video/'' = Inr False" by auto
  from p q a b show ?thesis by blast
qed

end
